theory Spec2Isabelle
  imports Complex_Main
begin

section \<open>C++ \<open>double\<close> and \<open>int\<close> arithmetic\<close>

text \<open>
  \<open>mainSerial.cpp\<close> computes with \<open>double\<close> and \<open>int\<close>. A \<open>double\<close> is a finite
  value, an infinity or a NaN; the finite value zero has a sign: \<open>Fin 0\<close> is \<open>+0.0\<close>
  and \<open>NZero\<close> is \<open>-0.0\<close>. Every arithmetic operation computes the exact real result
  of two finite operands and rounds it, unless that result is zero, whose sign the
  operation fixes (a sum that is zero is \<open>+0.0\<close> unless both operands are \<open>-0.0\<close>; a
  product or quotient that is zero has the product of the signs of the operands).
  The rounding function is a parameter \<open>rnd\<close> of the operations; \<open>round64\<close> below is
  the rounding of IEEE binary64. Every operation is rounded on its own: a product
  and a sum are not fused, and no intermediate result is kept in a wider format.
\<close>

datatype double = Fin real | NZero | PInf | NInf | NaN

fun is_finite :: "double \<Rightarrow> bool" where
  "is_finite (Fin x) = True"
| "is_finite NZero = True"
| "is_finite d = False"

fun fin_value :: "double \<Rightarrow> real" where
  "fin_value (Fin x) = x"
| "fin_value d = 0"

fun dneg :: "double \<Rightarrow> double" where
  "dneg (Fin x) = (if x = 0 then NZero else Fin (- x))"
| "dneg NZero = Fin 0"
| "dneg PInf = NInf"
| "dneg NInf = PInf"
| "dneg NaN = NaN"

fun dadd :: "(real \<Rightarrow> double) \<Rightarrow> double \<Rightarrow> double \<Rightarrow> double" where
  "dadd rnd (Fin x) (Fin y) = (if x + y = 0 then Fin 0 else rnd (x + y))"
| "dadd rnd (Fin x) NZero = (if x = 0 then Fin 0 else rnd x)"
| "dadd rnd NZero (Fin y) = (if y = 0 then Fin 0 else rnd y)"
| "dadd rnd NZero NZero = NZero"
| "dadd rnd (Fin x) PInf = PInf"
| "dadd rnd (Fin x) NInf = NInf"
| "dadd rnd NZero PInf = PInf"
| "dadd rnd NZero NInf = NInf"
| "dadd rnd PInf (Fin y) = PInf"
| "dadd rnd PInf NZero = PInf"
| "dadd rnd PInf PInf = PInf"
| "dadd rnd PInf NInf = NaN"
| "dadd rnd NInf (Fin y) = NInf"
| "dadd rnd NInf NZero = NInf"
| "dadd rnd NInf NInf = NInf"
| "dadd rnd NInf PInf = NaN"
| "dadd rnd NaN b = NaN"
| "dadd rnd a NaN = NaN"

definition dsub :: "(real \<Rightarrow> double) \<Rightarrow> double \<Rightarrow> double \<Rightarrow> double" where
  "dsub rnd a b = dadd rnd a (dneg b)"

fun dmul :: "(real \<Rightarrow> double) \<Rightarrow> double \<Rightarrow> double \<Rightarrow> double" where
  "dmul rnd (Fin x) (Fin y) =
     (if x = 0 \<or> y = 0 then (if x < 0 \<or> y < 0 then NZero else Fin 0) else rnd (x * y))"
| "dmul rnd (Fin x) NZero = (if x < 0 then Fin 0 else NZero)"
| "dmul rnd NZero (Fin y) = (if y < 0 then Fin 0 else NZero)"
| "dmul rnd NZero NZero = Fin 0"
| "dmul rnd (Fin x) PInf = (if x = 0 then NaN else if 0 < x then PInf else NInf)"
| "dmul rnd (Fin x) NInf = (if x = 0 then NaN else if 0 < x then NInf else PInf)"
| "dmul rnd NZero PInf = NaN"
| "dmul rnd NZero NInf = NaN"
| "dmul rnd PInf (Fin y) = (if y = 0 then NaN else if 0 < y then PInf else NInf)"
| "dmul rnd NInf (Fin y) = (if y = 0 then NaN else if 0 < y then NInf else PInf)"
| "dmul rnd PInf NZero = NaN"
| "dmul rnd NInf NZero = NaN"
| "dmul rnd PInf PInf = PInf"
| "dmul rnd PInf NInf = NInf"
| "dmul rnd NInf PInf = NInf"
| "dmul rnd NInf NInf = PInf"
| "dmul rnd NaN b = NaN"
| "dmul rnd a NaN = NaN"

fun ddiv :: "(real \<Rightarrow> double) \<Rightarrow> double \<Rightarrow> double \<Rightarrow> double" where
  "ddiv rnd (Fin x) (Fin y) =
     (if y = 0 then (if x = 0 then NaN else if 0 < x then PInf else NInf)
      else if x = 0 then (if y < 0 then NZero else Fin 0)
      else rnd (x / y))"
| "ddiv rnd (Fin x) NZero = (if x = 0 then NaN else if 0 < x then NInf else PInf)"
| "ddiv rnd NZero (Fin y) = (if y = 0 then NaN else if 0 < y then NZero else Fin 0)"
| "ddiv rnd NZero NZero = NaN"
| "ddiv rnd (Fin x) PInf = (if x < 0 then NZero else Fin 0)"
| "ddiv rnd (Fin x) NInf = (if x < 0 then Fin 0 else NZero)"
| "ddiv rnd NZero PInf = NZero"
| "ddiv rnd NZero NInf = Fin 0"
| "ddiv rnd PInf (Fin y) = (if 0 \<le> y then PInf else NInf)"
| "ddiv rnd NInf (Fin y) = (if 0 \<le> y then NInf else PInf)"
| "ddiv rnd PInf NZero = NInf"
| "ddiv rnd NInf NZero = PInf"
| "ddiv rnd PInf PInf = NaN"
| "ddiv rnd PInf NInf = NaN"
| "ddiv rnd NInf PInf = NaN"
| "ddiv rnd NInf NInf = NaN"
| "ddiv rnd NaN b = NaN"
| "ddiv rnd a NaN = NaN"

text \<open>The comparisons \<open><=\<close>, \<open><\<close> and \<open>==\<close> of C++: false as soon as an operand is a
  NaN, and the two zeros are equal.\<close>

fun dle :: "double \<Rightarrow> double \<Rightarrow> bool" where
  "dle NaN b = False"
| "dle a NaN = False"
| "dle NInf b = True"
| "dle a PInf = True"
| "dle PInf b = False"
| "dle a NInf = False"
| "dle a b = (fin_value a \<le> fin_value b)"

fun dlt :: "double \<Rightarrow> double \<Rightarrow> bool" where
  "dlt NaN b = False"
| "dlt a NaN = False"
| "dlt PInf b = False"
| "dlt a NInf = False"
| "dlt NInf b = True"
| "dlt a PInf = True"
| "dlt a b = (fin_value a < fin_value b)"

fun deq :: "double \<Rightarrow> double \<Rightarrow> bool" where
  "deq NaN b = False"
| "deq a NaN = False"
| "deq PInf PInf = True"
| "deq NInf NInf = True"
| "deq PInf b = False"
| "deq a PInf = False"
| "deq NInf b = False"
| "deq a NInf = False"
| "deq a b = (fin_value a = fin_value b)"

subsection \<open>Rounding to binary64\<close>

text \<open>
  \<open>rne\<close> rounds a real to the nearest integer, a tie to the even one. \<open>binade x\<close> is
  the exponent \<open>e\<close> with \<open>2^e \<le> x < 2^(e+1)\<close> of a positive \<open>x\<close>. \<open>ulp64 x\<close> is the unit
  in the last place of the 53-bit significand at \<open>x\<close> (exponents below \<open>-1022\<close> share
  the subnormal spacing \<open>2^-1074\<close>), \<open>nearest64 x\<close> the nearest multiple of it, and
  \<open>round64\<close> overflows to an infinity from \<open>2^1024\<close> on and keeps the sign of a
  negative value that rounds to zero.
\<close>

definition rne :: "real \<Rightarrow> int" where
  "rne x = (let f = \<lfloor>x\<rfloor>; d = x - of_int f
            in if d < 1 / 2 then f else if 1 / 2 < d then f + 1
               else if even f then f else f + 1)"

function expo_up :: "real \<Rightarrow> int" where
  "expo_up x = (if x < 2 then 0 else 1 + expo_up (x / 2))"
  by pat_completeness auto
termination
  by (relation "measure (\<lambda>x. nat \<lfloor>x\<rfloor>)") (auto, linarith)

function expo_down :: "real \<Rightarrow> int" where
  "expo_down x = (if x \<le> 0 \<or> 1 \<le> x then 0 else expo_down (2 * x) - 1)"
  by pat_completeness auto
termination
proof (relation "measure (\<lambda>x. nat \<lfloor>1 / x\<rfloor>)")
  show "wf (measure (\<lambda>x::real. nat \<lfloor>1 / x\<rfloor>))" by simp
next
  fix x :: real
  assume "\<not> (x \<le> 0 \<or> 1 \<le> x)"
  then have x: "0 < x" "x < 1" by auto
  define y where "y = 1 / x"
  have y1: "1 < y" using x by (simp add: y_def)
  have fl: "1 \<le> \<lfloor>y\<rfloor>" using y1 by simp
  have "y - 1 < of_int \<lfloor>y\<rfloor>" by linarith
  with fl y1 have "y / 2 < of_int \<lfloor>y\<rfloor>" by linarith
  then have lt: "\<lfloor>y / 2\<rfloor> < \<lfloor>y\<rfloor>" by (simp add: floor_less_iff)
  have eq: "1 / (2 * x) = y / 2" by (simp add: y_def)
  have "\<lfloor>1 / (2 * x)\<rfloor> < \<lfloor>y\<rfloor>" using lt by (simp only: eq)
  then show "(2 * x, x) \<in> measure (\<lambda>x. nat \<lfloor>1 / x\<rfloor>)"
    using fl by (simp add: y_def)
qed

declare expo_up.simps [simp del] expo_down.simps [simp del]

definition binade :: "real \<Rightarrow> int" where
  "binade x = (if 1 \<le> x then expo_up x else expo_down x)"

definition pow2 :: "int \<Rightarrow> real" where
  "pow2 k = (if 0 \<le> k then 2 ^ nat k else 1 / 2 ^ nat (- k))"

definition ulp64 :: "real \<Rightarrow> real" where
  "ulp64 x = pow2 (max (binade \<bar>x\<bar>) (- 1022) - 52)"

definition nearest64 :: "real \<Rightarrow> real" where
  "nearest64 x = of_int (rne (x / ulp64 x)) * ulp64 x"

definition round64 :: "real \<Rightarrow> double" where
  "round64 x =
     (if 2 ^ 1024 \<le> \<bar>nearest64 x\<bar> then (if 0 < x then PInf else NInf)
      else if nearest64 x = 0 \<and> x < 0 then NZero
      else Fin (nearest64 x))"

subsection \<open>Conversions between \<open>int\<close> and \<open>double\<close>\<close>

text \<open>
  \<open>int\<close> is the 32-bit signed integer. The conversion \<open>int(x)\<close> of a \<open>double\<close> drops
  the fraction (it truncates towards zero); its behaviour is undefined when \<open>x\<close> is
  not finite or the truncated value is no \<open>int\<close>, and so is that of an \<open>int\<close> addition
  whose result is no \<open>int\<close>. Undefined behaviour is the value \<open>None\<close>.
\<close>

definition INT_MIN :: int where "INT_MIN = - (2 ^ 31)"
definition INT_MAX :: int where "INT_MAX = 2 ^ 31 - 1"

definition trunc :: "real \<Rightarrow> int" where
  "trunc x = (if 0 \<le> x then \<lfloor>x\<rfloor> else \<lceil>x\<rceil>)"

definition double_to_int :: "double \<Rightarrow> int option" where
  "double_to_int d =
     (if is_finite d \<and> INT_MIN \<le> trunc (fin_value d) \<and> trunc (fin_value d) \<le> INT_MAX
      then Some (trunc (fin_value d)) else None)"

definition int_add :: "int \<Rightarrow> int \<Rightarrow> int option" where
  "int_add a b = (if INT_MIN \<le> a + b \<and> a + b \<le> INT_MAX then Some (a + b) else None)"

definition int_to_double :: "int \<Rightarrow> double" where
  "int_to_double i = Fin (of_int i)"

section \<open>The data of the sweep\<close>

text \<open>
  \<open>PECommandLineOptions\<close> holds the validated command line; the fields below are the
  ones \<open>main\<close> reads (\<open>io.min\<close> is \<open>io_min\<close>, and so on). The diffraction order
  \<open>toOrder\<close> is an integer. A \<open>PEResult\<close> is what the solver returns: \<open>main\<close> reads
  only whether its status is \<open>PEResult::Success\<close>, so every other status is the one
  value \<open>Failure\<close> here.
\<close>

datatype Mode = ConstantIncidence | ConstantIncludedAngle | ConstantWavelength | InvalidMode

datatype Profile =
  RectangularProfile | BlazedProfile | SinusoidalProfile | TrapezoidalProfile | InvalidProfile

record PECommandLineOptions =
  io_mode :: Mode
  io_min :: double
  io_max :: double
  io_increment :: double
  io_incidenceAngle :: double
  io_includedAngle :: double
  io_toOrder :: int
  io_wavelength :: double
  io_eV :: bool
  io_printDebugOutput :: bool
  io_outputFile :: string
  io_progressFile :: string
  io_profile :: Profile
  io_period :: double
  io_geometry :: "double list"
  io_material :: string
  io_N :: int

datatype PEStatus = Success | Failure

record PEResult =
  status :: PEStatus
  eff :: "double list"

text \<open>
  What \<open>main\<close> uses and does not define: the rounding of the machine, the \<open>asin\<close> and
  \<open>cos\<close> of the C library on the finite arguments of their domain, the constants
  \<open>M_PI\<close> and \<open>M_HC\<close>, the solver \<open>getEff\<close> of the grating (the grating and the math
  options are built from \<open>io\<close> alone, so the solver takes \<open>io\<close>, the incidence angle
  and the wavelength), the writers of the header and of a result line, and whether
  a file can be opened for writing. The grating of lines 156 to 173 is created from
  a validated command line: the comment of line 171 says that the profile is one
  of the four profiles of a grating, and the model takes it so.
\<close>

record env =
  rnd :: "real \<Rightarrow> double"
  asin_fn :: "real \<Rightarrow> real"
  cos_fn :: "real \<Rightarrow> real"
  M_PI :: real
  M_HC :: real
  getEff :: "PECommandLineOptions \<Rightarrow> double \<Rightarrow> double \<Rightarrow> PEResult"
  writeOutputFileHeader :: "PECommandLineOptions \<Rightarrow> string"
  writeOutputFileResult :: "PEResult \<Rightarrow> PECommandLineOptions \<Rightarrow> string"
  can_open :: "string \<Rightarrow> bool"

text \<open>\<open>asin\<close> has a domain error outside \<open>[-1, 1]\<close> and returns a NaN there; \<open>cos\<close> of an
  infinity is a NaN; both pass a NaN on. \<open>asin\<close> of \<open>-0.0\<close> is \<open>-0.0\<close>, and \<open>cos\<close> of
  \<open>-0.0\<close> is \<open>cos\<close> of zero.\<close>

definition c_asin :: "env \<Rightarrow> double \<Rightarrow> double" where
  "c_asin E d =
     (case d of
        Fin x \<Rightarrow> if - 1 \<le> x \<and> x \<le> 1 then Fin (asin_fn E x) else NaN
      | NZero \<Rightarrow> NZero
      | _ \<Rightarrow> NaN)"

definition c_cos :: "env \<Rightarrow> double \<Rightarrow> double" where
  "c_cos E d =
     (case d of Fin x \<Rightarrow> Fin (cos_fn E x) | NZero \<Rightarrow> Fin (cos_fn E 0) | _ \<Rightarrow> NaN)"

section \<open>The steps of the sweep\<close>

text \<open>Line 146: \<open>int totalSteps = int((io.max - io.min)/io.increment) + 1\<close>.\<close>

definition totalSteps :: "env \<Rightarrow> PECommandLineOptions \<Rightarrow> int option" where
  "totalSteps E io =
     (case double_to_int (ddiv (rnd E) (dsub (rnd E) (io_max io) (io_min io)) (io_increment io)) of
        None \<Rightarrow> None
      | Some t \<Rightarrow> int_add t 1)"

text \<open>Line 186: \<open>double currentValue = io.min + io.increment*i\<close>.\<close>

definition currentValue :: "env \<Rightarrow> PECommandLineOptions \<Rightarrow> int \<Rightarrow> double" where
  "currentValue E io i =
     dadd (rnd E) (io_min io) (dmul (rnd E) (io_increment io) (int_to_double i))"

text \<open>Lines 189 to 191: the wavelength of the step, converted from a photon energy
  when \<open>io.eV\<close> is set.\<close>

definition toWavelength :: "env \<Rightarrow> double \<Rightarrow> bool \<Rightarrow> double" where
  "toWavelength E v isEnergyUnits = (if isEnergyUnits then ddiv (rnd E) (Fin (M_HC E)) v else v)"

definition wavelength :: "env \<Rightarrow> PECommandLineOptions \<Rightarrow> double \<Rightarrow> double" where
  "wavelength E io cv =
     toWavelength E (if io_mode io = ConstantWavelength then io_wavelength io else cv) (io_eV io)"

text \<open>Lines 195 to 210: the incidence angle of the step. In constant included angle
  mode it is
  \<open>(asin(-io.toOrder*wavelength/2/io.period/cos(ciaRad/2)) + ciaRad/2) * 180 / M_PI\<close>
  with \<open>ciaRad = io.includedAngle * M_PI / 180\<close>.\<close>

definition ciaRad :: "env \<Rightarrow> PECommandLineOptions \<Rightarrow> double" where
  "ciaRad E io = ddiv (rnd E) (dmul (rnd E) (io_includedAngle io) (Fin (M_PI E))) (Fin 180)"

definition asin_argument :: "env \<Rightarrow> PECommandLineOptions \<Rightarrow> double \<Rightarrow> double" where
  "asin_argument E io wl =
     ddiv (rnd E)
       (ddiv (rnd E)
          (ddiv (rnd E) (dmul (rnd E) (int_to_double (- io_toOrder io)) wl) (Fin 2))
          (io_period io))
       (c_cos E (ddiv (rnd E) (ciaRad E io) (Fin 2)))"

definition incidenceAngle :: "env \<Rightarrow> PECommandLineOptions \<Rightarrow> double \<Rightarrow> double \<Rightarrow> double" where
  "incidenceAngle E io cv wl =
     (case io_mode io of
        ConstantIncidence \<Rightarrow> io_incidenceAngle io
      | ConstantIncludedAngle \<Rightarrow>
          ddiv (rnd E)
            (dmul (rnd E)
               (dadd (rnd E) (c_asin E (asin_argument E io wl))
                  (ddiv (rnd E) (ciaRad E io) (Fin 2)))
               (Fin 180))
            (Fin (M_PI E))
      | ConstantWavelength \<Rightarrow> cv
      | InvalidMode \<Rightarrow> Fin 0)"

section \<open>The progress block\<close>

text \<open>The decimal text of an \<open>int\<close>, as \<open>operator<<\<close> prints it.\<close>

fun string_of_nat :: "nat \<Rightarrow> string" where
  "string_of_nat n =
     (if n < 10 then [''0123456789'' ! n]
      else string_of_nat (n div 10) @ [''0123456789'' ! (n mod 10)])"

declare string_of_nat.simps [simp del]

definition string_of_int :: "int \<Rightarrow> string" where
  "string_of_int i = (if i < 0 then ''-'' @ string_of_nat (nat (- i)) else string_of_nat (nat i))"

definition endl :: string where
  "endl = [CHR 0x0A]"

datatype RunStatus = InProgress | SomeFailed | AllFailed | Succeeded

text \<open>
  Modelled from the spec: \<open>writeOutputFileProgress\<close> is declared in \<open>PEMainSupport.h\<close>
  and is not part of \<open>mainSerial.cpp\<close>. The status follows the derivation of the
  specification: fewer completed steps than total steps is in progress; otherwise a
  success and a failure is some failed; otherwise a failure is all failed; otherwise
  succeeded. The text of the block is the one the comment of \<open>main\<close> shows:
  \<open># Progress\<close>, \<open>status=\<close>, \<open>completedSteps=\<close>, \<open>totalSteps=\<close>, one per line.
\<close>

definition runStatus :: "int \<Rightarrow> int \<Rightarrow> bool \<Rightarrow> bool \<Rightarrow> RunStatus" where
  "runStatus completedSteps nSteps anySuccess anyFailure =
     (if completedSteps < nSteps then InProgress
      else if anySuccess \<and> anyFailure then SomeFailed
      else if anyFailure then AllFailed
      else Succeeded)"

fun status_name :: "RunStatus \<Rightarrow> string" where
  "status_name InProgress = ''inProgress''"
| "status_name SomeFailed = ''someFailed''"
| "status_name AllFailed = ''allFailed''"
| "status_name Succeeded = ''succeeded''"

definition writeOutputFileProgress :: "int \<Rightarrow> int \<Rightarrow> bool \<Rightarrow> bool \<Rightarrow> string" where
  "writeOutputFileProgress completedSteps nSteps anySuccess anyFailure =
     ''# Progress'' @ endl
     @ ''status='' @ status_name (runStatus completedSteps nSteps anySuccess anyFailure) @ endl
     @ ''completedSteps='' @ string_of_int completedSteps @ endl
     @ ''totalSteps='' @ string_of_int nSteps @ endl"

section \<open>The files and the loop\<close>

text \<open>
  A file is its content. \<open>outputFile.seekp(outputFilePosition)\<close> followed by writes
  replaces the characters from that position on, one for one, and extends the file
  when the text reaches beyond its end; it removes nothing. A file that opened at
  the start opens again during the run, and a write to an open file succeeds.
  The state below keeps one content for the output file and one for the progress
  file: it describes the files of a run whose two paths differ, which are taken to
  name two files. (With one path for both, every opening of the progress file
  would erase what the output stream has written.)
\<close>

definition overwrite :: "nat \<Rightarrow> string \<Rightarrow> string \<Rightarrow> string" where
  "overwrite pos text content = take pos content @ text @ drop (pos + length text) content"

text \<open>The state of the loop: the two flags, the results, the content of the output
  file, the content of the progress file when there is one, and the inputs
  (sweep coordinate, incidence angle, wavelength) of the calls of the solver.\<close>

record loop_state =
  anyFailures :: bool
  anySuccesses :: bool
  results :: "PEResult list"
  outputFile :: string
  progressFile :: "string option"
  solverCalls :: "(double \<times> double \<times> double) list"

text \<open>Lines 221 to 225: the text written from \<open>outputFilePosition\<close> on after a step.\<close>

definition region ::
  "env \<Rightarrow> PECommandLineOptions \<Rightarrow> int \<Rightarrow> int \<Rightarrow> bool \<Rightarrow> bool \<Rightarrow> PEResult list \<Rightarrow> string" where
  "region E io completedSteps nSteps anySuccess anyFailure rs =
     writeOutputFileProgress completedSteps nSteps anySuccess anyFailure
     @ ''# Output'' @ endl
     @ concat (map (\<lambda>r. writeOutputFileResult E r io) rs)"

text \<open>Lines 186 to 231: one iteration of the loop, for the index \<open>i\<close>.\<close>

definition body ::
  "env \<Rightarrow> PECommandLineOptions \<Rightarrow> int \<Rightarrow> nat \<Rightarrow> int \<Rightarrow> loop_state \<Rightarrow> loop_state" where
  "body E io nSteps pos i s =
     (let cv = currentValue E io i;
          wl = wavelength E io cv;
          angle = incidenceAngle E io cv wl;
          result = getEff E io angle wl;
          anyS = (if status result = Success then True else anySuccesses s);
          anyF = (if status result = Success then anyFailures s else True);
          rs = results s @ [result]
      in \<lparr> anyFailures = anyF,
           anySuccesses = anyS,
           results = rs,
           outputFile = overwrite pos (region E io (i + 1) nSteps anyS anyF rs) (outputFile s),
           progressFile =
             (if io_progressFile io \<noteq> []
              then Some (writeOutputFileProgress (i + 1) nSteps anyS anyF)
              else progressFile s),
           solverCalls = solverCalls s @ [(cv, angle, wl)] \<rparr>)"

text \<open>Line 184: \<open>for(int i=0; i<totalSteps; ++i)\<close>.\<close>

function for_loop ::
  "env \<Rightarrow> PECommandLineOptions \<Rightarrow> int \<Rightarrow> nat \<Rightarrow> int \<Rightarrow> loop_state \<Rightarrow> loop_state" where
  "for_loop E io nSteps pos i s =
     (if i < nSteps then for_loop E io nSteps pos (i + 1) (body E io nSteps pos i s) else s)"
  by pat_completeness auto
termination
  by (relation "measure (\<lambda>(E, io, nSteps, pos, i, s). nat (nSteps - i))") auto

declare for_loop.simps [simp del]

text \<open>Lines 140 to 153 and 179 to 181: the state before the first step. The header
  is written, the position after it is remembered, and the initial progress is
  written to both files.\<close>

definition initial_state :: "env \<Rightarrow> PECommandLineOptions \<Rightarrow> int \<Rightarrow> loop_state" where
  "initial_state E io nSteps =
     \<lparr> anyFailures = False,
       anySuccesses = False,
       results = [],
       outputFile = writeOutputFileHeader E io @ writeOutputFileProgress 0 nSteps False False,
       progressFile =
         (if io_progressFile io \<noteq> []
          then Some (writeOutputFileProgress 0 nSteps False False)
          else None),
       solverCalls = [] \<rparr>"

definition outputFilePosition :: "env \<Rightarrow> PECommandLineOptions \<Rightarrow> nat" where
  "outputFilePosition E io = length (writeOutputFileHeader E io)"

text \<open>
  What a run leaves: the exit code, the content of the output file and of the
  progress file (\<open>None\<close> for a file the run has not opened), the results and the
  calls of the solver.
\<close>

record outcome =
  exit_code :: int
  output_content :: "string option"
  progress_content :: "string option"
  run_results :: "PEResult list"
  run_calls :: "(double \<times> double \<times> double) list"

definition startup_failure :: "string option \<Rightarrow> outcome" where
  "startup_failure out =
     \<lparr> exit_code = - 1, output_content = out, progress_content = None,
       run_results = [], run_calls = [] \<rparr>"

text \<open>
  \<open>main\<close>, from the parsed command line on (\<open>None\<close> when \<open>parseFromCommandLine\<close>
  rejects it). The result is \<open>None\<close> when the behaviour of the program is undefined,
  which is when the conversion or the addition of \<open>totalSteps\<close> is.
\<close>

definition main :: "env \<Rightarrow> PECommandLineOptions option \<Rightarrow> outcome option" where
  "main E parsed =
     (case parsed of
        None \<Rightarrow> Some (startup_failure None)
      | Some io \<Rightarrow>
          if \<not> can_open E (io_outputFile io) then Some (startup_failure None)
          else if io_progressFile io \<noteq> [] \<and> \<not> can_open E (io_progressFile io)
          then Some (startup_failure (Some []))
          else
            (case totalSteps E io of
               None \<Rightarrow> None
             | Some nSteps \<Rightarrow>
                 (let s = for_loop E io nSteps (outputFilePosition E io) 0
                            (initial_state E io nSteps)
                  in Some \<lparr> exit_code = 0,
                            output_content = Some (outputFile s),
                            progress_content = progressFile s,
                            run_results = results s,
                            run_calls = solverCalls s \<rparr>)))"

text \<open>The state after the first \<open>k\<close> iterations of the loop.\<close>

primrec after_steps ::
  "env \<Rightarrow> PECommandLineOptions \<Rightarrow> int \<Rightarrow> nat \<Rightarrow> loop_state" where
  "after_steps E io nSteps 0 = initial_state E io nSteps"
| "after_steps E io nSteps (Suc k) =
     body E io nSteps (outputFilePosition E io) (int k) (after_steps E io nSteps k)"


text \<open>The inputs of the call of the solver in the iteration \<open>i\<close>, and its result.\<close>

definition step_input :: "env \<Rightarrow> PECommandLineOptions \<Rightarrow> int \<Rightarrow> double \<times> double \<times> double" where
  "step_input E io i =
     (let cv = currentValue E io i; wl = wavelength E io cv
      in (cv, incidenceAngle E io cv wl, wl))"

definition step_result :: "env \<Rightarrow> PECommandLineOptions \<Rightarrow> int \<Rightarrow> PEResult" where
  "step_result E io i =
     (let cv = currentValue E io i; wl = wavelength E io cv
      in getEff E io (incidenceAngle E io cv wl) wl)"

section \<open>Roundings, machines and an example configuration\<close>

text \<open>A rounding keeps zero and the order. A double is representable when rounding
  its finite value returns it, and a rounding is exact at a real that it returns.\<close>

definition rounding :: "(real \<Rightarrow> double) \<Rightarrow> bool" where
  "rounding r \<longleftrightarrow> r 0 = Fin 0 \<and> (\<forall>x y. x \<le> y \<longrightarrow> dle (r x) (r y))"

definition representable :: "(real \<Rightarrow> double) \<Rightarrow> double \<Rightarrow> bool" where
  "representable r d \<longleftrightarrow> (\<forall>x. d = Fin x \<longrightarrow> r x = Fin x)"

definition exact_at :: "(real \<Rightarrow> double) \<Rightarrow> real \<Rightarrow> bool" where
  "exact_at r x \<longleftrightarrow> r x = Fin x"

text \<open>
  A machine, for a solver \<open>g\<close> and a writer of result lines \<open>w\<close>: \<open>machine64\<close> rounds
  to binary64, has a correctly rounded \<open>asin\<close> and \<open>cos\<close>, and the binary64 values of
  the constants \<open>3.14159265358979323846\<close> and \<open>1.23984172\<close> (the value the comment of
  line 191 gives for \<open>hc\<close>). It opens every file, and writes a one-line header.
\<close>

definition machine64 ::
  "(PECommandLineOptions \<Rightarrow> double \<Rightarrow> double \<Rightarrow> PEResult)
   \<Rightarrow> (PEResult \<Rightarrow> PECommandLineOptions \<Rightarrow> string) \<Rightarrow> env" where
  "machine64 g w =
     \<lparr> rnd = round64,
       asin_fn = (\<lambda>x. fin_value (round64 (arcsin x))),
       cos_fn = (\<lambda>x. fin_value (round64 (cos x))),
       M_PI = 884279719003555 / 2 ^ 48,
       M_HC = 5583750708190395 / 2 ^ 52,
       getEff = g,
       writeOutputFileHeader = (\<lambda>io. ''# Input'' @ endl),
       writeOutputFileResult = w,
       can_open = (\<lambda>path. True) \<rparr>"

text \<open>A solver that returns the same status at every step, and two writers of
  result lines: one marks every step, one writes nothing for a failed step.\<close>

definition always :: "PEStatus \<Rightarrow> PECommandLineOptions \<Rightarrow> double \<Rightarrow> double \<Rightarrow> PEResult" where
  "always st io angle wl = \<lparr> status = st, eff = [] \<rparr>"

definition marking_writer :: "PEResult \<Rightarrow> PECommandLineOptions \<Rightarrow> string" where
  "marking_writer r io = (if status r = Success then ''ok'' else ''failed'') @ endl"

definition silent_writer :: "PEResult \<Rightarrow> PECommandLineOptions \<Rightarrow> string" where
  "silent_writer r io = (if status r = Success then ''ok'' @ endl else [])"

text \<open>The command line of the comment at the head of \<open>mainSerial.cpp\<close>:
  constant incidence at 88 degrees, from 100 eV to 120 eV in steps of 5 eV.\<close>

definition example_io :: PECommandLineOptions where
  "example_io =
     \<lparr> io_mode = ConstantIncidence,
       io_min = Fin 100,
       io_max = Fin 120,
       io_increment = Fin 5,
       io_incidenceAngle = Fin 88,
       io_includedAngle = Fin 0,
       io_toOrder = 0,
       io_wavelength = Fin 0,
       io_eV = True,
       io_printDebugOutput = True,
       io_outputFile = ''testOutput.txt'',
       io_progressFile = ''testProgress.txt'',
       io_profile = BlazedProfile,
       io_period = Fin 1,
       io_geometry = [Fin (5 / 2), Fin 30],
       io_material = ''Au'',
       io_N = 15 \<rparr>"

text \<open>Two constant included angle configurations. The first has the included
  angle 0, the inside order \<open>-1\<close>, the period 1 and a single step at the wavelength
  4. The second is the example with the included angle 60 degrees to the order 1
  of a grating of period 2, swept over the photon energies of the example.\<close>

definition included_angle_io :: PECommandLineOptions where
  "included_angle_io =
     example_io\<lparr> io_mode := ConstantIncludedAngle, io_includedAngle := Fin 60,
                 io_toOrder := 1, io_period := Fin 2 \<rparr>"

definition monochromator_io :: PECommandLineOptions where
  "monochromator_io =
     example_io\<lparr> io_mode := ConstantIncludedAngle, io_min := Fin 4, io_max := Fin 4,
                 io_increment := Fin 1, io_includedAngle := Fin 0, io_toOrder := - 1,
                 io_eV := False \<rparr>"

text \<open>The example with \<open>max\<close> lowered to 105: a sweep of two steps.\<close>

definition two_step_io :: PECommandLineOptions where
  "two_step_io = example_io\<lparr> io_max := Fin 105 \<rparr>"

text \<open>The sweep \<open>--min 0 --max 1.7 --increment 0.1\<close>: the binary64 values of \<open>1.7\<close>
  and \<open>0.1\<close> are \<open>7656119366529843 / 2^52\<close> and \<open>3602879701896397 / 2^55\<close>.\<close>

definition tenths_io :: PECommandLineOptions where
  "tenths_io =
     example_io\<lparr> io_min := Fin 0, io_max := Fin (7656119366529843 / 2 ^ 52),
                 io_increment := Fin (3602879701896397 / 2 ^ 55), io_eV := False \<rparr>"

text \<open>Three more sweeps: one that runs downwards with a negative increment, one
  whose \<open>max\<close> is below its \<open>min\<close>, and one at \<open>2^53\<close>, where the binary64 numbers are
  2 apart, in steps of 1.\<close>

definition descending_io :: PECommandLineOptions where
  "descending_io =
     example_io\<lparr> io_min := Fin 10, io_max := Fin 0, io_increment := Fin (- 5),
                 io_eV := False \<rparr>"

definition reversed_io :: PECommandLineOptions where
  "reversed_io = example_io\<lparr> io_min := Fin 10, io_max := Fin 5, io_increment := Fin 2 \<rparr>"

definition absorbed_io :: PECommandLineOptions where
  "absorbed_io =
     example_io\<lparr> io_min := Fin 9007199254740992, io_max := Fin 9007199254740994,
                 io_increment := Fin 1, io_eV := False \<rparr>"

section \<open>The loop and the run\<close>

lemma for_loop_after_steps_aux:
  "d = nat n - k \<Longrightarrow> k \<le> nat n \<Longrightarrow>
   for_loop E io n (outputFilePosition E io) (int k) (after_steps E io n k)
     = after_steps E io n (nat n)"
proof (induction d arbitrary: k)
  case 0
  then have "k = nat n" by simp
  then have "\<not> int k < n" by simp
  then show ?case using \<open>k = nat n\<close> by (subst for_loop.simps) simp
next
  case (Suc d)
  then have lt: "int k < n" by linarith
  have step: "d = nat n - Suc k" "Suc k \<le> nat n" using Suc.prems by auto
  have "for_loop E io n (outputFilePosition E io) (int k) (after_steps E io n k)
        = for_loop E io n (outputFilePosition E io) (int (Suc k)) (after_steps E io n (Suc k))"
    using lt by (subst for_loop.simps) (simp add: add.commute)
  also have "\<dots> = after_steps E io n (nat n)" using Suc.IH [OF step] .
  finally show ?case .
qed

lemma for_loop_after_steps:
  "for_loop E io n (outputFilePosition E io) 0 (initial_state E io n) = after_steps E io n (nat n)"
  using for_loop_after_steps_aux [of "nat n - 0" n 0 E io] by simp

lemma results_after_steps:
  "results (after_steps E io n k) = map (\<lambda>i. step_result E io (int i)) [0..<k]"
  by (induction k) (simp_all add: initial_state_def body_def Let_def step_result_def)

lemma solverCalls_after_steps:
  "solverCalls (after_steps E io n k) = map (\<lambda>i. step_input E io (int i)) [0..<k]"
  by (induction k) (simp_all add: initial_state_def body_def Let_def step_input_def)

lemma anySuccesses_after_steps:
  "anySuccesses (after_steps E io n k)
     = (\<exists>r \<in> set (results (after_steps E io n k)). status r = Success)"
  by (induction k) (auto simp add: initial_state_def body_def Let_def)

lemma anyFailures_after_steps:
  "anyFailures (after_steps E io n k)
     = (\<exists>r \<in> set (results (after_steps E io n k)). status r \<noteq> Success)"
  by (induction k) (auto simp add: initial_state_def body_def Let_def)

lemma main_run:
  assumes "can_open E (io_outputFile io)"
    and "io_progressFile io = [] \<or> can_open E (io_progressFile io)"
    and "totalSteps E io = Some n"
  shows "main E (Some io) =
           Some \<lparr> exit_code = 0,
                  output_content = Some (outputFile (after_steps E io n (nat n))),
                  progress_content = progressFile (after_steps E io n (nat n)),
                  run_results = results (after_steps E io n (nat n)),
                  run_calls = solverCalls (after_steps E io n (nat n)) \<rparr>"
  using assms by (auto simp add: main_def for_loop_after_steps Let_def)

lemma main_run_maps:
  assumes "can_open E (io_outputFile io)"
    and "io_progressFile io = [] \<or> can_open E (io_progressFile io)"
    and "totalSteps E io = Some n"
  shows "map_option run_results (main E (Some io))
           = Some (map (\<lambda>i. step_result E io (int i)) [0..<nat n])"
    and "map_option run_calls (main E (Some io))
           = Some (map (\<lambda>i. step_input E io (int i)) [0..<nat n])"
    and "map_option exit_code (main E (Some io)) = Some 0"
    and "map_option output_content (main E (Some io))
           = Some (Some (outputFile (after_steps E io n (nat n))))"
    and "map_option progress_content (main E (Some io))
           = Some (progressFile (after_steps E io n (nat n)))"
  by (simp_all add: main_run [OF assms] results_after_steps solverCalls_after_steps)

lemma fst_step_input [simp]: "fst (step_input E io i) = currentValue E io i"
  by (simp add: step_input_def Let_def)

lemma main_run_nth:
  assumes "can_open E (io_outputFile io)"
    and "io_progressFile io = [] \<or> can_open E (io_progressFile io)"
    and "totalSteps E io = Some n"
    and "k < nat n"
  shows "map_option (\<lambda>out. run_calls out ! k) (main E (Some io)) = Some (step_input E io (int k))"
    and "map_option (\<lambda>out. run_results out ! k) (main E (Some io))
           = Some (step_result E io (int k))"
  using assms(4)
  by (simp_all add: main_run [OF assms(1,2,3)] results_after_steps solverCalls_after_steps)

lemma main_run_coordinates:
  assumes "can_open E (io_outputFile io)"
    and "io_progressFile io = [] \<or> can_open E (io_progressFile io)"
    and "totalSteps E io = Some n"
  shows "map_option (\<lambda>out. map fst (run_calls out)) (main E (Some io))
           = Some (map (\<lambda>i. currentValue E io (int i)) [0..<nat n])"
  by (simp add: main_run [OF assms] solverCalls_after_steps comp_def)

section \<open>Rounding to binary64 keeps the order\<close>

lemma pow2_powr: "pow2 k = 2 powr (of_int k)"
  by (simp add: pow2_def powr_real_of_int inverse_eq_divide)

lemma pow2_pos [simp]: "0 < pow2 k"
  by (simp add: pow2_powr)

lemma pow2_nonneg [simp]: "0 \<le> pow2 k"
  using pow2_pos [of k] by (rule less_imp_le)

lemma pow2_add: "pow2 (a + b) = pow2 a * pow2 b"
  by (simp add: pow2_powr powr_add)

lemma pow2_le_iff [simp]: "pow2 a \<le> pow2 b \<longleftrightarrow> a \<le> b"
  by (simp add: pow2_powr)

lemma pow2_less_iff [simp]: "pow2 a < pow2 b \<longleftrightarrow> a < b"
  by (simp add: pow2_powr)

lemma pow2_0 [simp]: "pow2 0 = 1"
  by (simp add: pow2_def)

lemma pow2_1 [simp]: "pow2 1 = 2"
  by (simp add: pow2_def)

lemma pow2_Suc: "pow2 (k + 1) = 2 * pow2 k"
  by (simp add: pow2_add)

lemma pow2_pred: "pow2 (k - 1) = pow2 k / 2"
  using pow2_Suc [of "k - 1"] by simp

lemma expo_up_bounds:
  "1 \<le> x \<Longrightarrow> 0 \<le> expo_up x \<and> pow2 (expo_up x) \<le> x \<and> x < pow2 (expo_up x + 1)"
proof (induction x rule: expo_up.induct)
  case (1 x)
  show ?case
  proof (cases "x < 2")
    case True
    then have "expo_up x = 0" by (subst expo_up.simps) simp
    with True "1.prems" show ?thesis by simp
  next
    case False
    then have e: "expo_up x = 1 + expo_up (x / 2)" by (subst expo_up.simps) simp
    from False have "1 \<le> x / 2" by simp
    from "1.IH" [OF False this]
    have ih: "0 \<le> expo_up (x / 2)" "pow2 (expo_up (x / 2)) \<le> x / 2"
      "x / 2 < pow2 (expo_up (x / 2) + 1)" by auto
    have "pow2 (expo_up x) = 2 * pow2 (expo_up (x / 2))"
      unfolding e using pow2_Suc [of "expo_up (x / 2)"] by (simp add: add.commute)
    moreover have "pow2 (expo_up x + 1) = 2 * pow2 (expo_up (x / 2) + 1)"
      unfolding e using pow2_Suc [of "expo_up (x / 2) + 1"] by (simp add: add.commute)
    ultimately show ?thesis using ih e by simp
  qed
qed

lemma expo_down_bounds:
  "0 < x \<Longrightarrow> x < 1 \<Longrightarrow>
   expo_down x < 0 \<and> pow2 (expo_down x) \<le> x \<and> x < pow2 (expo_down x + 1)"
proof (induction x rule: expo_down.induct)
  case (1 x)
  from "1.prems" have c: "\<not> (x \<le> 0 \<or> 1 \<le> x)" by simp
  then have e: "expo_down x = expo_down (2 * x) - 1" by (subst expo_down.simps) simp
  show ?case
  proof (cases "2 * x < 1")
    case True
    from "1.IH" [OF c _ True] "1.prems"
    have ih: "expo_down (2 * x) < 0" "pow2 (expo_down (2 * x)) \<le> 2 * x"
      "2 * x < pow2 (expo_down (2 * x) + 1)" by auto
    have "pow2 (expo_down x) = pow2 (expo_down (2 * x)) / 2"
      unfolding e by (rule pow2_pred)
    moreover have "pow2 (expo_down x + 1) = pow2 (expo_down (2 * x))"
      unfolding e by simp
    moreover have "pow2 (expo_down (2 * x) + 1) = 2 * pow2 (expo_down (2 * x))"
      by (rule pow2_Suc)
    ultimately show ?thesis using ih e by simp
  next
    case False
    then have "expo_down (2 * x) = 0" by (subst expo_down.simps) simp
    with e have e1: "expo_down x = - 1" by simp
    have "pow2 (- 1) = 1 / 2" by (simp add: pow2_def)
    with False "1.prems" show ?thesis unfolding e1 by simp
  qed
qed

lemma binade_bounds:
  assumes "0 < x"
  shows "pow2 (binade x) \<le> x" and "x < pow2 (binade x + 1)"
  using assms expo_up_bounds [of x] expo_down_bounds [of x]
  by (auto simp add: binade_def not_le)

lemma binade_mono:
  assumes "0 < x" and "x \<le> y"
  shows "binade x \<le> binade y"
proof -
  have "pow2 (binade x) \<le> x" using assms(1) by (rule binade_bounds)
  also have "x \<le> y" by fact
  also have "y < pow2 (binade y + 1)" using assms by (intro binade_bounds) simp
  finally show ?thesis by simp
qed

lemma rne_of_int [simp]: "rne (of_int k) = k"
  by (simp add: rne_def)

lemma rne_mono:
  assumes "x \<le> y"
  shows "rne x \<le> rne y"
proof -
  have fl: "\<lfloor>x\<rfloor> \<le> \<lfloor>y\<rfloor>" using assms by (rule floor_mono)
  have rx: "rne x = \<lfloor>x\<rfloor> \<or> rne x = \<lfloor>x\<rfloor> + 1" by (simp add: rne_def Let_def)
  have ry: "rne y = \<lfloor>y\<rfloor> \<or> rne y = \<lfloor>y\<rfloor> + 1" by (simp add: rne_def Let_def)
  show ?thesis
  proof (cases "\<lfloor>x\<rfloor> = \<lfloor>y\<rfloor>")
    case True
    then have "x - of_int \<lfloor>x\<rfloor> \<le> y - of_int \<lfloor>y\<rfloor>" using assms by simp
    then show ?thesis
      unfolding rne_def Let_def True by (auto split: if_splits)
  next
    case False
    with fl have "\<lfloor>x\<rfloor> + 1 \<le> \<lfloor>y\<rfloor>" by simp
    with rx ry show ?thesis by auto
  qed
qed

lemma rne_minus: "rne (- x) = - rne x"
proof (cases "x \<in> \<int>")
  case True
  then obtain k where "x = of_int k" by (auto elim: Ints_cases)
  then have "rne (- x) = rne (of_int (- k))" by simp
  also have "\<dots> = - k" by (rule rne_of_int)
  finally show ?thesis using \<open>x = of_int k\<close> by simp
next
  case False
  then have ne: "x \<noteq> of_int \<lfloor>x\<rfloor>" by (metis Ints_of_int)
  have "of_int \<lfloor>x\<rfloor> \<le> x" "x < of_int \<lfloor>x\<rfloor> + 1" by linarith+
  with ne have d: "0 < x - of_int \<lfloor>x\<rfloor>" "x - of_int \<lfloor>x\<rfloor> < 1" by linarith+
  have fl: "\<lfloor>- x\<rfloor> = - \<lfloor>x\<rfloor> - 1"
    by (rule floor_unique) (use d in simp_all)
  show ?thesis
    unfolding rne_def Let_def fl using d by (auto split: if_splits)
qed

lemma ulp64_pos [simp]: "0 < ulp64 x"
  by (simp add: ulp64_def)

lemma ulp64_nonneg [simp]: "0 \<le> ulp64 x"
  by (simp add: ulp64_def)

lemma ulp64_minus [simp]: "ulp64 (- x) = ulp64 x"
  by (simp add: ulp64_def)

lemma nearest64_minus: "nearest64 (- x) = - nearest64 x"
  by (simp add: nearest64_def rne_minus)

lemma nearest64_0 [simp]: "nearest64 0 = 0"
  by (simp add: nearest64_def rne_def)

lemma nearest64_nonneg:
  assumes "0 \<le> x"
  shows "0 \<le> nearest64 x"
proof -
  have "0 \<le> x / ulp64 x" using assms by (intro divide_nonneg_nonneg) simp_all
  then have "rne 0 \<le> rne (x / ulp64 x)" by (rule rne_mono)
  then have "0 \<le> rne (x / ulp64 x)" by (simp add: rne_def)
  then show ?thesis by (simp add: nearest64_def)
qed

lemma nearest64_upper:
  assumes "0 < x"
  shows "nearest64 x \<le> pow2 (max (binade x) (- 1022) + 1)"
proof -
  define e where "e = max (binade x) (- 1022)"
  have q: "ulp64 x = pow2 (e - 52)" using assms by (simp add: ulp64_def e_def)
  have "x < pow2 (binade x + 1)" using assms by (rule binade_bounds)
  also have "\<dots> \<le> pow2 (e + 1)" by (simp add: e_def)
  also have "pow2 (e + 1) = pow2 53 * pow2 (e - 52)"
    by (simp add: pow2_add [symmetric] add.commute)
  finally have "x / pow2 (e - 52) \<le> pow2 53" by (simp add: field_simps)
  also have "pow2 53 = of_int (2 ^ 53)" by (simp add: pow2_def)
  finally have "rne (x / pow2 (e - 52)) \<le> rne (of_int (2 ^ 53))" by (rule rne_mono)
  then have "rne (x / pow2 (e - 52)) \<le> 2 ^ 53" by (simp only: rne_of_int)
  then have "of_int (rne (x / pow2 (e - 52))) \<le> (of_int (2 ^ 53) :: real)"
    by (simp only: of_int_le_iff)
  then have "of_int (rne (x / pow2 (e - 52))) * pow2 (e - 52) \<le> of_int (2 ^ 53) * pow2 (e - 52)"
    by (rule mult_right_mono) simp
  also have "(of_int (2 ^ 53) :: real) = pow2 53" by (simp add: pow2_def)
  also have "pow2 53 * pow2 (e - 52) = pow2 (e + 1)"
    by (simp add: pow2_add [symmetric] add.commute)
  finally show ?thesis by (simp add: nearest64_def q e_def)
qed

lemma nearest64_lower:
  assumes "0 < x" and "- 1022 \<le> binade x"
  shows "pow2 (binade x) \<le> nearest64 x"
proof -
  define e where "e = binade x"
  have q: "ulp64 x = pow2 (e - 52)" using assms by (simp add: ulp64_def e_def max_def)
  have split: "pow2 e = pow2 52 * pow2 (e - 52)"
    by (simp add: pow2_add [symmetric])
  have "pow2 e \<le> x" unfolding e_def using assms(1) by (rule binade_bounds)
  then have "pow2 52 \<le> x / pow2 (e - 52)" by (simp add: split field_simps)
  moreover have p: "pow2 52 = of_int (2 ^ 52)" by (simp add: pow2_def)
  ultimately have "rne (of_int (2 ^ 52)) \<le> rne (x / pow2 (e - 52))"
    by (intro rne_mono) simp
  then have "2 ^ 52 \<le> rne (x / pow2 (e - 52))" by (simp only: rne_of_int)
  then have "(of_int (2 ^ 52) :: real) \<le> of_int (rne (x / pow2 (e - 52)))"
    by (simp only: of_int_le_iff)
  then have le: "of_int (2 ^ 52) * pow2 (e - 52)
      \<le> of_int (rne (x / pow2 (e - 52))) * pow2 (e - 52)"
    by (rule mult_right_mono) simp
  have "pow2 e = of_int (2 ^ 52) * pow2 (e - 52)" by (simp only: split p)
  also note le
  finally show ?thesis by (simp only: nearest64_def q e_def)
qed

lemma nearest64_mono_pos:
  assumes "0 < x" and "x \<le> y"
  shows "nearest64 x \<le> nearest64 y"
proof -
  have y: "0 < y" using assms by simp
  define ex where "ex = max (binade x) (- 1022)"
  define ey where "ey = max (binade y) (- 1022)"
  have le: "ex \<le> ey" using binade_mono [OF assms] by (simp add: ex_def ey_def)
  show ?thesis
  proof (cases "ex = ey")
    case True
    then have q: "ulp64 x = ulp64 y" using assms y by (simp add: ulp64_def ex_def ey_def)
    have "x / ulp64 y \<le> y / ulp64 y" using assms(2) by (rule divide_right_mono) simp
    then have "rne (x / ulp64 y) \<le> rne (y / ulp64 y)" by (rule rne_mono)
    then show ?thesis by (simp add: nearest64_def q)
  next
    case False
    with le have lt: "ex + 1 \<le> ey" by simp
    then have bin: "ey = binade y" "- 1022 \<le> binade y"
      by (auto simp add: ey_def ex_def max_def split: if_splits)
    have "nearest64 x \<le> pow2 (ex + 1)" unfolding ex_def using assms(1) by (rule nearest64_upper)
    also have "\<dots> \<le> pow2 ey" using lt by simp
    also have "\<dots> \<le> nearest64 y" unfolding bin(1) using y bin(2) by (rule nearest64_lower)
    finally show ?thesis .
  qed
qed

lemma nearest64_mono:
  assumes "x \<le> y"
  shows "nearest64 x \<le> nearest64 y"
proof -
  consider "0 < x" | "x \<le> 0" "0 \<le> y" | "y < 0" by linarith
  then show ?thesis
  proof cases
    case 1
    then show ?thesis using assms by (rule nearest64_mono_pos)
  next
    case 2
    from 2(1) have "0 \<le> nearest64 (- x)" by (intro nearest64_nonneg) simp
    then have "nearest64 x \<le> 0" by (simp add: nearest64_minus)
    also have "0 \<le> nearest64 y" using 2(2) by (rule nearest64_nonneg)
    finally show ?thesis .
  next
    case 3
    then have "0 < - y" "- y \<le> - x" using assms by simp_all
    then have "nearest64 (- y) \<le> nearest64 (- x)" by (rule nearest64_mono_pos)
    then show ?thesis by (simp add: nearest64_minus)
  qed
qed

lemma round64_mono:
  assumes "x \<le> y"
  shows "dle (round64 x) (round64 y)"
proof -
  have m: "nearest64 x \<le> nearest64 y" using assms by (rule nearest64_mono)
  have px: "0 \<le> nearest64 x" if "0 < x" using that by (intro nearest64_nonneg) simp
  have nx: "nearest64 x \<le> 0" if "\<not> 0 < x"
  proof -
    from that have "0 \<le> nearest64 (- x)" by (intro nearest64_nonneg) simp
    then show ?thesis by (simp add: nearest64_minus)
  qed
  have py: "0 \<le> nearest64 y" if "0 < y" using that by (intro nearest64_nonneg) simp
  have ny: "nearest64 y \<le> 0" if "\<not> 0 < y"
  proof -
    from that have "0 \<le> nearest64 (- y)" by (intro nearest64_nonneg) simp
    then show ?thesis by (simp add: nearest64_minus)
  qed
  show ?thesis
    unfolding round64_def using m px nx py ny assms
    by (auto simp add: abs_if split: if_splits)
qed

lemma rounding_round64: "rounding round64"
  unfolding rounding_def using round64_mono by (simp add: round64_def)

text \<open>Evaluating binary64 rounding and the example.\<close>

lemmas round64_eval =
  round64_def nearest64_def ulp64_def binade_def expo_up.simps expo_down.simps pow2_def
  rne_def Let_def


lemma machine64_simps [simp]:
  "rnd (machine64 g w) = round64"
  "M_PI (machine64 g w) = 884279719003555 / 2 ^ 48"
  "M_HC (machine64 g w) = 5583750708190395 / 2 ^ 52"
  "getEff (machine64 g w) = g"
  "writeOutputFileHeader (machine64 g w) = (\<lambda>io. ''# Input'' @ endl)"
  "writeOutputFileResult (machine64 g w) = w"
  "can_open (machine64 g w) = (\<lambda>path. True)"
  by (simp_all add: machine64_def)

lemma round64_0: "round64 0 = Fin 0"
  by (simp add: round64_eval)

lemma round64_20: "round64 20 = Fin 20"
  by (simp add: round64_eval)

lemma round64_4: "round64 4 = Fin 4"
  by (simp add: round64_eval)

lemma machine64_libm [simp]:
  "asin_fn (machine64 g w) x = fin_value (round64 (arcsin x))"
  "cos_fn (machine64 g w) x = fin_value (round64 (cos x))"
  by (simp_all add: machine64_def)

lemma round64_1: "round64 1 = Fin 1"
  by (simp add: round64_eval)

lemma round64_2: "round64 2 = Fin 2"
  by (simp add: round64_eval)

lemma round64_5: "round64 5 = Fin 5"
  by (simp add: round64_eval)

lemma totalSteps_example: "totalSteps (machine64 g w) example_io = Some 5"
  by (simp add: totalSteps_def example_io_def dsub_def round64_20 round64_4
      double_to_int_def int_add_def trunc_def INT_MIN_def INT_MAX_def)

lemma totalSteps_getEff [simp]: "totalSteps (E\<lparr>getEff := g\<rparr>) io = totalSteps E io"
  by (simp add: totalSteps_def)

section \<open>Exit code and startup failures\<close>

text \<open>
  C9. When both files open and \<open>totalSteps\<close> is defined, the run executes all its
  steps and exits with status 0, whatever solver \<open>g\<close> is called: the results of the
  steps, all failures included, have no effect on the exit code.
\<close>

theorem exit_code_zero_after_all_steps:
  assumes "can_open E (io_outputFile io)"
    and "io_progressFile io = [] \<or> can_open E (io_progressFile io)"
    and "totalSteps E io = Some n"
  shows "\<exists>out. main (E\<lparr>getEff := g\<rparr>) (Some io) = Some out \<and> exit_code out = 0
               \<and> length (run_results out) = nat n"
proof -
  let ?E = "E\<lparr>getEff := g\<rparr>"
  have "can_open ?E (io_outputFile io)"
    and "io_progressFile io = [] \<or> can_open ?E (io_progressFile io)"
    and "totalSteps ?E io = Some n"
    using assms by simp_all
  from main_run [OF this] show ?thesis
    by (simp add: results_after_steps)
qed

theorem exit_code_zero_after_all_steps_witness:
  "can_open (machine64 (always Success) marking_writer) (io_outputFile example_io)
   \<and> (io_progressFile example_io = []
        \<or> can_open (machine64 (always Success) marking_writer) (io_progressFile example_io))
   \<and> totalSteps (machine64 (always Success) marking_writer) example_io = Some 5
   \<and> (\<exists>out. main ((machine64 (always Success) marking_writer)\<lparr>getEff := always Failure\<rparr>)
                (Some example_io) = Some out
            \<and> exit_code out = 0 \<and> length (run_results out) = 5)"
proof -
  have h1: "can_open (machine64 (always Success) marking_writer) (io_outputFile example_io)"
    by simp
  have h2: "io_progressFile example_io = []
        \<or> can_open (machine64 (always Success) marking_writer) (io_progressFile example_io)"
    by simp
  have h3: "totalSteps (machine64 (always Success) marking_writer) example_io = Some 5"
    by (rule totalSteps_example)
  show ?thesis
    using h1 h2 h3 exit_code_zero_after_all_steps [OF h1 h2 h3, of "always Failure"] by simp
qed

text \<open>
  C6. If the output file cannot be opened, or a progress file was asked for and
  cannot be opened, the run ends with a non-zero exit code without a call of the
  solver and without a result (it does not even compute \<open>totalSteps\<close>). If both open,
  the run executes all its steps: the result of every step is recorded as the
  solver returned it, a failure as a failure, and the run goes on to exit code 0.
\<close>

theorem startup_failure_before_any_step:
  "(\<not> can_open E (io_outputFile io)
      \<or> (io_progressFile io \<noteq> [] \<and> \<not> can_open E (io_progressFile io))
     \<longrightarrow> (\<exists>out. main E (Some io) = Some out \<and> exit_code out \<noteq> 0
                \<and> run_calls out = [] \<and> run_results out = []))
   \<and> (can_open E (io_outputFile io)
        \<and> (io_progressFile io = [] \<or> can_open E (io_progressFile io))
        \<and> totalSteps E io = Some n
     \<longrightarrow> (\<exists>out. main E (Some io) = Some out \<and> exit_code out = 0
                \<and> length (run_results out) = nat n
                \<and> (\<forall>k < nat n. run_results out ! k = step_result E io (int k))
                \<and> (\<forall>k < nat n. status (step_result E io (int k)) = Failure
                       \<longrightarrow> status (run_results out ! k) = Failure)))"
proof (intro conjI impI)
  assume "\<not> can_open E (io_outputFile io)
      \<or> (io_progressFile io \<noteq> [] \<and> \<not> can_open E (io_progressFile io))"
  then show "\<exists>out. main E (Some io) = Some out \<and> exit_code out \<noteq> 0
                \<and> run_calls out = [] \<and> run_results out = []"
    by (auto simp add: main_def startup_failure_def)
next
  assume a: "can_open E (io_outputFile io)
        \<and> (io_progressFile io = [] \<or> can_open E (io_progressFile io))
        \<and> totalSteps E io = Some n"
  then have "main E (Some io) =
           Some \<lparr> exit_code = 0,
                  output_content = Some (outputFile (after_steps E io n (nat n))),
                  progress_content = progressFile (after_steps E io n (nat n)),
                  run_results = results (after_steps E io n (nat n)),
                  run_calls = solverCalls (after_steps E io n (nat n)) \<rparr>"
    by (intro main_run) auto
  then show "\<exists>out. main E (Some io) = Some out \<and> exit_code out = 0
                \<and> length (run_results out) = nat n
                \<and> (\<forall>k < nat n. run_results out ! k = step_result E io (int k))
                \<and> (\<forall>k < nat n. status (step_result E io (int k)) = Failure
                       \<longrightarrow> status (run_results out ! k) = Failure)"
    by (simp add: results_after_steps)
qed

theorem startup_failure_before_any_step_witness:
  "\<not> can_open ((machine64 (always Failure) marking_writer)\<lparr>can_open := (\<lambda>path. False)\<rparr>)
        (io_outputFile example_io)
   \<and> (\<exists>out. main ((machine64 (always Failure) marking_writer)\<lparr>can_open := (\<lambda>path. False)\<rparr>)
               (Some example_io) = Some out
            \<and> exit_code out \<noteq> 0 \<and> run_calls out = [] \<and> run_results out = [])
   \<and> can_open (machine64 (always Failure) marking_writer) (io_outputFile example_io)
   \<and> (io_progressFile example_io = []
        \<or> can_open (machine64 (always Failure) marking_writer) (io_progressFile example_io))
   \<and> totalSteps (machine64 (always Failure) marking_writer) example_io = Some 5
   \<and> (\<exists>out. main (machine64 (always Failure) marking_writer) (Some example_io) = Some out
            \<and> exit_code out = 0 \<and> length (run_results out) = 5
            \<and> (\<forall>k < 5. status (run_results out ! k) = Failure))"
proof -
  let ?E = "machine64 (always Failure) marking_writer"
  let ?F = "?E\<lparr>can_open := (\<lambda>path. False)\<rparr>"
  have h0: "\<not> can_open ?F (io_outputFile example_io)" by simp
  have h1: "can_open ?E (io_outputFile example_io)" by simp
  have h2: "io_progressFile example_io = [] \<or> can_open ?E (io_progressFile example_io)"
    by simp
  have h3: "totalSteps ?E example_io = Some 5" by (rule totalSteps_example)
  have st: "status (step_result ?E example_io i) = Failure" for i
    by (simp add: step_result_def always_def Let_def)
  show ?thesis
    using h0 h1 h2 h3 st
      startup_failure_before_any_step [of ?F example_io 0]
      startup_failure_before_any_step [of ?E example_io 5]
    by auto
qed

section \<open>The number of steps of a single-point sweep\<close>

lemma dsub_equal_finite:
  assumes "is_finite a" and "deq a b"
  shows "dsub r b a = Fin 0 \<or> dsub r b a = NZero"
  using assms by (cases a; cases b) (auto simp add: dsub_def)

lemma ddiv_zero:
  assumes "z = Fin 0 \<or> z = NZero" and "\<not> deq d (Fin 0)" and "d \<noteq> NaN"
  shows "ddiv r z d = Fin 0 \<or> ddiv r z d = NZero"
  using assms by (cases d) auto

text \<open>
  C8 (amended). For a finite \<open>min\<close> equal to \<open>max\<close> and an increment that is neither
  zero nor a NaN, \<open>totalSteps\<close> is 1, whatever the sign and the magnitude of the
  increment (an infinite one included), on every machine.
\<close>

theorem totalSteps_single_point:
  assumes "is_finite (io_min io)" and "deq (io_min io) (io_max io)"
    and "\<not> deq (io_increment io) (Fin 0)" and "io_increment io \<noteq> NaN"
  shows "totalSteps E io = Some 1"
proof -
  from dsub_equal_finite [OF assms(1,2)]
  have "dsub (rnd E) (io_max io) (io_min io) = Fin 0
      \<or> dsub (rnd E) (io_max io) (io_min io) = NZero" .
  from ddiv_zero [OF this assms(3,4)]
  have "ddiv (rnd E) (dsub (rnd E) (io_max io) (io_min io)) (io_increment io) = Fin 0
      \<or> ddiv (rnd E) (dsub (rnd E) (io_max io) (io_min io)) (io_increment io) = NZero" .
  then show ?thesis
    by (auto simp add: totalSteps_def double_to_int_def int_add_def trunc_def
        INT_MIN_def INT_MAX_def)
qed

theorem totalSteps_single_point_witness:
  "is_finite (io_min (example_io\<lparr>io_max := Fin 100, io_increment := Fin (- 5)\<rparr>))
   \<and> deq (io_min (example_io\<lparr>io_max := Fin 100, io_increment := Fin (- 5)\<rparr>))
        (io_max (example_io\<lparr>io_max := Fin 100, io_increment := Fin (- 5)\<rparr>))
   \<and> \<not> deq (io_increment (example_io\<lparr>io_max := Fin 100, io_increment := Fin (- 5)\<rparr>)) (Fin 0)
   \<and> io_increment (example_io\<lparr>io_max := Fin 100, io_increment := Fin (- 5)\<rparr>) \<noteq> NaN
   \<and> totalSteps (machine64 (always Success) marking_writer)
        (example_io\<lparr>io_max := Fin 100, io_increment := Fin (- 5)\<rparr>) = Some 1"
proof -
  let ?E = "machine64 (always Success) marking_writer"
  let ?io = "example_io\<lparr>io_max := Fin 100, io_increment := Fin (- 5)\<rparr>"
  have h1: "is_finite (io_min ?io)" by (simp add: example_io_def)
  have h2: "deq (io_min ?io) (io_max ?io)" by (simp add: example_io_def)
  have h3: "\<not> deq (io_increment ?io) (Fin 0)" by simp
  have h4: "io_increment ?io \<noteq> NaN" by simp
  show ?thesis
    using h1 h2 h3 h4 totalSteps_single_point [OF h1 h2 h3 h4, of ?E] by simp
qed

text \<open>With a zero increment the quotient is \<open>0.0/0.0\<close>, a NaN, and its conversion to
  \<open>int\<close> is undefined: \<open>totalSteps\<close> is not 1. The same holds for the increment
  \<open>-0.0\<close>, for an increment that is a NaN, and for \<open>min\<close> and \<open>max\<close> both \<open>+infinity\<close>,
  whose difference is a NaN.\<close>

theorem totalSteps_zero_increment_counterexample:
  "totalSteps (machine64 (always Success) marking_writer)
     (example_io\<lparr>io_max := Fin 100, io_increment := Fin 0\<rparr>) = None
   \<and> totalSteps (machine64 (always Success) marking_writer)
     (example_io\<lparr>io_max := Fin 100, io_increment := NZero\<rparr>) = None
   \<and> totalSteps (machine64 (always Success) marking_writer)
     (example_io\<lparr>io_max := Fin 100, io_increment := NaN\<rparr>) = None
   \<and> totalSteps (machine64 (always Success) marking_writer)
     (example_io\<lparr>io_min := PInf, io_max := PInf\<rparr>) = None"
  by (simp add: totalSteps_def example_io_def dsub_def double_to_int_def)

section \<open>The unit conversion\<close>

text \<open>
  C7 (amended). The conversion returns the value unchanged when \<open>isEnergyUnits\<close> is
  false, and the rounded quotient \<open>M_HC / value\<close> when it is true and the value is
  not zero. For the value zero it raises no error: the division yields \<open>+infinity\<close>
  for \<open>+0.0\<close> and \<open>-infinity\<close> for \<open>-0.0\<close>, which is the wavelength of the step. The
  value converted is the sweep coordinate, or \<open>io.wavelength\<close> in constant
  wavelength mode.
\<close>

theorem toWavelength_cases:
  "toWavelength E v False = v
   \<and> (0 < M_HC E \<longrightarrow>
        (x \<noteq> 0 \<longrightarrow> toWavelength E (Fin x) True = rnd E (M_HC E / x))
        \<and> toWavelength E (Fin 0) True = PInf
        \<and> toWavelength E NZero True = NInf)
   \<and> (io_mode io \<noteq> ConstantWavelength
        \<longrightarrow> wavelength E io cv = toWavelength E cv (io_eV io))
   \<and> (io_mode io = ConstantWavelength
        \<longrightarrow> wavelength E io cv = toWavelength E (io_wavelength io) (io_eV io))"
  by (simp add: toWavelength_def wavelength_def)

theorem toWavelength_cases_witness:
  "(100::real) \<noteq> 0
   \<and> 0 < M_HC (machine64 (always Success) marking_writer)
   \<and> io_mode example_io \<noteq> ConstantWavelength
   \<and> io_mode (example_io\<lparr>io_mode := ConstantWavelength\<rparr>) = ConstantWavelength
   \<and> toWavelength (machine64 (always Success) marking_writer) (Fin 100) False = Fin 100
   \<and> toWavelength (machine64 (always Success) marking_writer) (Fin 100) True
       = Fin (3573600453241853 / 2 ^ 58)
   \<and> toWavelength (machine64 (always Success) marking_writer) (Fin 0) True = PInf
   \<and> toWavelength (machine64 (always Success) marking_writer) NZero True = NInf
   \<and> wavelength (machine64 (always Success) marking_writer) example_io (Fin 100)
       = Fin (3573600453241853 / 2 ^ 58)
   \<and> wavelength (machine64 (always Success) marking_writer)
        (example_io\<lparr>io_mode := ConstantWavelength, io_wavelength := Fin 100\<rparr>) (Fin 10)
       = Fin (3573600453241853 / 2 ^ 58)"
proof -
  let ?E = "machine64 (always Success) marking_writer"
  have hc: "M_HC ?E = 5583750708190395 / 2 ^ 52" by simp
  have r: "rnd ?E (M_HC ?E / 100) = Fin (3573600453241853 / 2 ^ 58)"
    by (simp add: round64_eval)
  have m: "io_mode example_io = ConstantIncidence" "io_eV example_io"
    by (simp_all add: example_io_def)
  show ?thesis
    using toWavelength_cases [of ?E "Fin 100" 100 example_io "Fin 100"]
      toWavelength_cases [of ?E "Fin 100" 100
        "example_io\<lparr>io_mode := ConstantWavelength, io_wavelength := Fin 100\<rparr>" "Fin 10"]
      r m hc
    by simp
qed

text \<open>At the photon energy zero the conversion returns an infinity and the solver
  is called with it: there is no domain error. A sweep from \<open>+0.0\<close> meets \<open>+infinity\<close>
  at its first step, and a sweep from \<open>-0.0\<close> with a negative increment \<open>-infinity\<close>.\<close>

theorem toWavelength_zero_energy_counterexample:
  "toWavelength (machine64 (always Success) marking_writer) (Fin 0) True = PInf
   \<and> toWavelength (machine64 (always Success) marking_writer) NZero True = NInf
   \<and> step_input (machine64 (always Success) marking_writer) (example_io\<lparr>io_min := Fin 0\<rparr>) 0
       = (Fin 0, Fin 88, PInf)
   \<and> step_input (machine64 (always Success) marking_writer)
        (example_io\<lparr>io_min := NZero, io_max := Fin (- 20), io_increment := Fin (- 5)\<rparr>) 0
       = (NZero, Fin 88, NInf)"
  by (simp add: toWavelength_def wavelength_def step_input_def currentValue_def
      incidenceAngle_def int_to_double_def example_io_def Let_def)

section \<open>The arcsine outside its domain\<close>

lemma nan_incidenceAngle:
  assumes "io_mode io = ConstantIncludedAngle"
    and "\<not> (dle (Fin (- 1)) (asin_argument E io wl) \<and> dle (asin_argument E io wl) (Fin 1))"
  shows "incidenceAngle E io cv wl = NaN"
proof -
  have "c_asin E (asin_argument E io wl) = NaN"
    using assms(2) by (cases "asin_argument E io wl") (auto simp add: c_asin_def)
  then show ?thesis by (simp add: incidenceAngle_def assms(1))
qed

text \<open>
  C4 (amended). In constant included angle mode, at a step whose arcsine argument
  is outside \<open>[-1, 1]\<close> (or is a NaN), \<open>main\<close> makes no check: \<open>asin\<close> returns a NaN, the
  incidence angle is a NaN, and the solver is called with it. The result recorded
  for the step is the one the solver returns for a NaN angle, a failure only if
  the solver reports one. The sweep goes on: the run executes all its steps and
  exits with status 0.
\<close>

theorem arcsine_domain_violation_step:
  assumes mode: "io_mode io = ConstantIncludedAngle"
    and cv: "cv = currentValue E io i"
    and wl: "wl = wavelength E io cv"
    and out_of_range:
      "\<not> (dle (Fin (- 1)) (asin_argument E io wl) \<and> dle (asin_argument E io wl) (Fin 1))"
  shows "incidenceAngle E io cv wl = NaN
       \<and> step_input E io i = (cv, NaN, wl)
       \<and> step_result E io i = getEff E io NaN wl
       \<and> (can_open E (io_outputFile io)
            \<and> (io_progressFile io = [] \<or> can_open E (io_progressFile io))
            \<and> totalSteps E io = Some n \<and> 0 \<le> i \<and> i < n
          \<longrightarrow> (\<exists>out. main E (Some io) = Some out \<and> exit_code out = 0
                     \<and> length (run_results out) = nat n
                     \<and> run_results out ! nat i = getEff E io NaN wl))"
proof -
  have a: "incidenceAngle E io cv wl = NaN"
    using mode out_of_range by (rule nan_incidenceAngle)
  have b: "step_input E io i = (cv, NaN, wl)"
    using a by (simp add: step_input_def Let_def cv wl)
  have c: "step_result E io i = getEff E io NaN wl"
    using a by (simp add: step_result_def Let_def cv wl)
  have d: "\<exists>out. main E (Some io) = Some out \<and> exit_code out = 0
                     \<and> length (run_results out) = nat n
                     \<and> run_results out ! nat i = getEff E io NaN wl"
    if h: "can_open E (io_outputFile io)
            \<and> (io_progressFile io = [] \<or> can_open E (io_progressFile io))
            \<and> totalSteps E io = Some n \<and> 0 \<le> i \<and> i < n"
  proof -
    have "main E (Some io) =
           Some \<lparr> exit_code = 0,
                  output_content = Some (outputFile (after_steps E io n (nat n))),
                  progress_content = progressFile (after_steps E io n (nat n)),
                  run_results = results (after_steps E io n (nat n)),
                  run_calls = solverCalls (after_steps E io n (nat n)) \<rparr>"
      using h by (intro main_run) auto
    moreover have "nat i < nat n" using h by simp
    ultimately show ?thesis using h c by (simp add: results_after_steps)
  qed
  from a b c d show ?thesis by blast
qed

lemma monochromator_io_simps [simp]:
  "io_mode monochromator_io = ConstantIncludedAngle"
  "io_min monochromator_io = Fin 4"
  "io_max monochromator_io = Fin 4"
  "io_increment monochromator_io = Fin 1"
  "io_includedAngle monochromator_io = Fin 0"
  "io_toOrder monochromator_io = - 1"
  "io_eV monochromator_io = False"
  "io_period monochromator_io = Fin 1"
  "io_outputFile monochromator_io = ''testOutput.txt''"
  "io_progressFile monochromator_io = ''testProgress.txt''"
  by (simp_all add: monochromator_io_def example_io_def)

lemma monochromator_step:
  "currentValue (machine64 g w) monochromator_io 0 = Fin 4"
  "wavelength (machine64 g w) monochromator_io (Fin 4) = Fin 4"
  "asin_argument (machine64 g w) monochromator_io (Fin 4) = Fin 2"
  "totalSteps (machine64 g w) monochromator_io = Some 1"
  by (simp_all add: currentValue_def wavelength_def toWavelength_def asin_argument_def
      ciaRad_def c_cos_def int_to_double_def totalSteps_def dsub_def double_to_int_def
      int_add_def trunc_def INT_MIN_def INT_MAX_def
      round64_0 round64_1 round64_2 round64_4)

theorem arcsine_domain_violation_step_witness:
  "io_mode monochromator_io = ConstantIncludedAngle
   \<and> Fin 4 = currentValue (machine64 (always Failure) marking_writer) monochromator_io 0
   \<and> Fin 4 = wavelength (machine64 (always Failure) marking_writer) monochromator_io (Fin 4)
   \<and> \<not> (dle (Fin (- 1))
            (asin_argument (machine64 (always Failure) marking_writer) monochromator_io (Fin 4))
          \<and> dle (asin_argument (machine64 (always Failure) marking_writer) monochromator_io (Fin 4))
              (Fin 1))
   \<and> totalSteps (machine64 (always Failure) marking_writer) monochromator_io = Some 1
   \<and> incidenceAngle (machine64 (always Failure) marking_writer) monochromator_io (Fin 4) (Fin 4)
       = NaN
   \<and> step_input (machine64 (always Failure) marking_writer) monochromator_io 0
       = (Fin 4, NaN, Fin 4)
   \<and> (\<exists>out. main (machine64 (always Failure) marking_writer) (Some monochromator_io) = Some out
            \<and> exit_code out = 0 \<and> length (run_results out) = 1
            \<and> run_results out ! 0 = \<lparr> status = Failure, eff = [] \<rparr>)"
proof -
  let ?E = "machine64 (always Failure) marking_writer"
  have m: "io_mode monochromator_io = ConstantIncludedAngle" by simp
  have cv: "Fin 4 = currentValue ?E monochromator_io 0" by (simp add: monochromator_step)
  have wl: "Fin 4 = wavelength ?E monochromator_io (Fin 4)" by (simp add: monochromator_step)
  have r: "\<not> (dle (Fin (- 1)) (asin_argument ?E monochromator_io (Fin 4))
          \<and> dle (asin_argument ?E monochromator_io (Fin 4)) (Fin 1))"
    by (simp add: monochromator_step)
  have t: "totalSteps ?E monochromator_io = Some 1" by (simp add: monochromator_step)
  show ?thesis
    using m cv wl r t arcsine_domain_violation_step [OF m cv wl r, of 1]
    by (simp add: always_def)
qed

text \<open>With the included angle 0, the order \<open>-1\<close>, the period 1 and the wavelength 4
  the arcsine argument is 2. A solver that reports a success for every input makes
  the result of the step a success: the failure is not produced by \<open>main\<close>.\<close>

theorem arcsine_domain_violation_counterexample:
  "asin_argument (machine64 (always Success) marking_writer) monochromator_io (Fin 4) = Fin 2
   \<and> map_option run_calls (main (machine64 (always Success) marking_writer) (Some monochromator_io))
       = Some [(Fin 4, NaN, Fin 4)]
   \<and> map_option run_results (main (machine64 (always Success) marking_writer) (Some monochromator_io))
       = Some [\<lparr> status = Success, eff = [] \<rparr>]"
proof -
  let ?E = "machine64 (always Success) marking_writer"
  have a: "asin_argument ?E monochromator_io (Fin 4) = Fin 2" by (simp add: monochromator_step)
  have n: "incidenceAngle ?E monochromator_io (Fin 4) (Fin 4) = NaN"
    by (rule nan_incidenceAngle) (simp_all add: a)
  have i: "step_input ?E monochromator_io 0 = (Fin 4, NaN, Fin 4)"
    by (simp add: step_input_def Let_def monochromator_step n)
  have r: "step_result ?E monochromator_io 0 = \<lparr> status = Success, eff = [] \<rparr>"
    by (simp add: step_result_def Let_def always_def)
  have h: "can_open ?E (io_outputFile monochromator_io)"
    "io_progressFile monochromator_io = [] \<or> can_open ?E (io_progressFile monochromator_io)"
    "totalSteps ?E monochromator_io = Some 1"
    by (simp_all add: monochromator_step)
  show ?thesis
    using a i r by (simp add: main_run_maps [OF h])
qed

section \<open>The rewritten region of the output file\<close>

lemma outputFile_Suc:
  "outputFile (after_steps E io n (Suc k))
     = overwrite (outputFilePosition E io)
         (region E io (int (Suc k)) n
            (anySuccesses (after_steps E io n (Suc k)))
            (anyFailures (after_steps E io n (Suc k)))
            (results (after_steps E io n (Suc k))))
         (outputFile (after_steps E io n k))"
  by (simp add: body_def Let_def add.commute)

lemma header_kept:
  "take (outputFilePosition E io) (outputFile (after_steps E io n k)) = writeOutputFileHeader E io"
proof (induction k)
  case 0
  show ?case by (simp add: initial_state_def outputFilePosition_def)
next
  case (Suc k)
  let ?pos = "outputFilePosition E io"
  let ?old = "outputFile (after_steps E io n k)"
  have len: "length (take ?pos ?old) = ?pos"
    by (simp only: Suc.IH) (simp add: outputFilePosition_def)
  have "take ?pos (overwrite ?pos R ?old) = take ?pos ?old" for R
    using len by (simp add: overwrite_def)
  then show ?case
    by (simp only: outputFile_Suc Suc.IH)
qed

lemma overwrite_after_header:
  assumes "take pos old = h" and "length h = pos"
  shows "overwrite pos R old = h @ R @ drop (pos + length R) old"
  using assms by (simp add: overwrite_def)

lemma two_step_io_simps [simp]:
  "io_mode two_step_io = ConstantIncidence"
  "io_min two_step_io = Fin 100"
  "io_max two_step_io = Fin 105"
  "io_increment two_step_io = Fin 5"
  "io_outputFile two_step_io = ''testOutput.txt''"
  "io_progressFile two_step_io = ''testProgress.txt''"
  by (simp_all add: two_step_io_def example_io_def)

lemma totalSteps_two_step: "totalSteps (machine64 g w) two_step_io = Some 2"
  by (simp add: totalSteps_def dsub_def round64_5 round64_1
      double_to_int_def int_add_def trunc_def INT_MIN_def INT_MAX_def)

lemmas text_eval =
  writeOutputFileProgress_def runStatus_def string_of_int_def string_of_nat.simps endl_def
  region_def

lemma two_step_state_1:
  "outputFile (after_steps (machine64 (always Failure) silent_writer) two_step_io 2 (Suc 0))
     = ''# Input'' @ endl
       @ ''# Progress'' @ endl @ ''status=inProgress'' @ endl
       @ ''completedSteps=1'' @ endl @ ''totalSteps=2'' @ endl
       @ ''# Output'' @ endl"
  by (simp add: body_def initial_state_def Let_def overwrite_def outputFilePosition_def
      always_def silent_writer_def text_eval)

lemma two_step_state_2:
  "outputFile (after_steps (machine64 (always Failure) silent_writer) two_step_io 2 (Suc (Suc 0)))
     = ''# Input'' @ endl
       @ ''# Progress'' @ endl @ ''status=allFailed'' @ endl
       @ ''completedSteps=2'' @ endl @ ''totalSteps=2'' @ endl
       @ ''# Output'' @ endl @ endl"
  apply (subst outputFile_Suc)
  apply (simp only: two_step_state_1 anySuccesses_after_steps anyFailures_after_steps
      results_after_steps)
  apply (simp add: step_result_def Let_def overwrite_def outputFilePosition_def
      always_def silent_writer_def text_eval)
  done

lemma outputFile_Suc_decomposed:
  "outputFile (after_steps E io n (Suc k))
     = writeOutputFileHeader E io
       @ region E io (int (Suc k)) n
            (anySuccesses (after_steps E io n (Suc k)))
            (anyFailures (after_steps E io n (Suc k)))
            (results (after_steps E io n (Suc k)))
       @ drop (length (writeOutputFileHeader E io)
               + length (region E io (int (Suc k)) n
                    (anySuccesses (after_steps E io n (Suc k)))
                    (anyFailures (after_steps E io n (Suc k)))
                    (results (after_steps E io n (Suc k)))))
           (outputFile (after_steps E io n k))"
proof -
  have "take (length (writeOutputFileHeader E io)) (outputFile (after_steps E io n k))
      = writeOutputFileHeader E io"
    using header_kept [of E io n k] by (simp only: outputFilePosition_def)
  from overwrite_after_header [OF this refl] show ?thesis
    by (simp only: outputFile_Suc outputFilePosition_def)
qed

lemma status_name_length:
  "length (status_name x) \<le> length (status_name y) + 1"
  by (cases x; cases y) simp_all

lemma string_of_nat_length_mono:
  "m \<le> n \<Longrightarrow> length (string_of_nat m) \<le> length (string_of_nat n)"
proof (induction n arbitrary: m rule: string_of_nat.induct)
  case (1 n)
  show ?case
  proof (cases "n < 10")
    case True
    with "1.prems" have "m < 10" by simp
    with True show ?thesis by (simp add: string_of_nat.simps [of m] string_of_nat.simps [of n])
  next
    case False
    show ?thesis
    proof (cases "m < 10")
      case True
      with False show ?thesis
        by (simp add: string_of_nat.simps [of m] string_of_nat.simps [of n])
    next
      case m: False
      from "1.prems" have "m div 10 \<le> n div 10" by (rule div_le_mono)
      from "1.IH" [OF False this] False m show ?thesis
        by (simp add: string_of_nat.simps [of m] string_of_nat.simps [of n])
    qed
  qed
qed

lemma progress_length_mono:
  "length (writeOutputFileProgress (int k) n a b)
     \<le> length (writeOutputFileProgress (int (Suc k)) n a' b') + 1"
proof -
  have "length (string_of_nat k) \<le> length (string_of_nat (Suc k))"
    by (rule string_of_nat_length_mono) simp
  moreover note status_name_length [of "runStatus (int k) n a b" "runStatus (int (Suc k)) n a' b'"]
  moreover have "nat (1 + int k) = Suc k" by simp
  ultimately show ?thesis
    by (simp add: writeOutputFileProgress_def string_of_int_def)
qed

lemma region_length_mono:
  assumes "writeOutputFileResult E r io \<noteq> []"
  shows "length (region E io (int k) n a b rs)
           \<le> length (region E io (int (Suc k)) n a' b' (rs @ [r]))"
proof -
  from assms have "1 \<le> length (writeOutputFileResult E r io)"
    by (cases "writeOutputFileResult E r io") simp_all
  with progress_length_mono [of k n a b a' b'] show ?thesis
    by (simp add: region_def)
qed

lemma results_Suc:
  "results (after_steps E io n (Suc k))
     = results (after_steps E io n k) @ [step_result E io (int k)]"
  unfolding results_after_steps by simp

lemma outputFile_length:
  assumes "\<forall>r \<in> set (results (after_steps E io n k)). writeOutputFileResult E r io \<noteq> []"
  shows "length (outputFile (after_steps E io n k))
           \<le> length (writeOutputFileHeader E io)
              + length (region E io (int k) n
                   (anySuccesses (after_steps E io n k))
                   (anyFailures (after_steps E io n k))
                   (results (after_steps E io n k)))"
  using assms
proof (induction k)
  case 0
  show ?case by (simp add: initial_state_def region_def)
next
  case (Suc k)
  let ?s = "after_steps E io n k"
  let ?s' = "after_steps E io n (Suc k)"
  let ?h = "writeOutputFileHeader E io"
  let ?R = "region E io (int k) n (anySuccesses ?s) (anyFailures ?s) (results ?s)"
  let ?R' = "region E io (int (Suc k)) n (anySuccesses ?s') (anyFailures ?s') (results ?s')"
  from Suc.prems have all: "\<forall>r \<in> set (results ?s). writeOutputFileResult E r io \<noteq> []"
    and last: "writeOutputFileResult E (step_result E io (int k)) io \<noteq> []"
    by (simp_all only: results_Suc) simp_all
  from Suc.IH [OF all] have "length (outputFile ?s) \<le> length ?h + length ?R" .
  also have "length ?R \<le> length ?R'"
    by (simp only: results_Suc) (rule region_length_mono [OF last])
  finally have "length (outputFile ?s) \<le> length ?h + length ?R'" by simp
  then have "outputFile ?s' = ?h @ ?R'"
    by (subst outputFile_Suc_decomposed) simp
  then show ?case by simp
qed

lemma marking_writer_nonempty [simp]: "marking_writer r io \<noteq> []"
  by (simp add: marking_writer_def)

text \<open>
  C5 (amended). In a run whose output file and progress file have different paths,
  after every step the output file is rewritten in place from the position
  recorded after the header: the header stays, and the current progress block, the
  line \<open># Output\<close> and the complete list of results follow it. The file is not
  truncated: what lay beyond the end of the new text stays in the file. The file
  is the header followed by the new text exactly when the file was not longer than
  that before the step, and this is the case whenever every result so far prints
  at least one character: a stale tail can arise only when a result prints
  nothing.
\<close>

theorem region_overwritten_after_step:
  assumes "io_progressFile io \<noteq> io_outputFile io"
  shows "let s = after_steps E io n k;
       s' = after_steps E io n (Suc k);
       h = writeOutputFileHeader E io;
       R = region E io (int (Suc k)) n (anySuccesses s') (anyFailures s') (results s')
   in outputFile s' = overwrite (length h) R (outputFile s)
      \<and> outputFile s' = h @ R @ drop (length h + length R) (outputFile s)
      \<and> (outputFile s' = h @ R \<longleftrightarrow> length (outputFile s) \<le> length h + length R)
      \<and> ((\<forall>r \<in> set (results s'). writeOutputFileResult E r io \<noteq> [])
           \<longrightarrow> outputFile s' = h @ R)"
proof -
  define s where "s = after_steps E io n k"
  define s' where "s' = after_steps E io n (Suc k)"
  define h where "h = writeOutputFileHeader E io"
  define R where "R = region E io (int (Suc k)) n (anySuccesses s') (anyFailures s') (results s')"
  have pos: "outputFilePosition E io = length h"
    by (simp add: outputFilePosition_def h_def)
  have 1: "outputFile s' = overwrite (length h) R (outputFile s)"
    unfolding s_def s'_def R_def using outputFile_Suc [of E io n k] by (simp only: pos)
  have "take (length h) (outputFile s) = h"
    unfolding s_def using header_kept [of E io n k] by (simp only: pos h_def)
  then have 2: "overwrite (length h) R (outputFile s)
      = h @ R @ drop (length h + length R) (outputFile s)"
    by (rule overwrite_after_header) simp
  from 1 2 have 3: "outputFile s' = h @ R \<longleftrightarrow> length (outputFile s) \<le> length h + length R"
    by simp
  have 4: "outputFile s' = h @ R"
    if a: "\<forall>r \<in> set (results s'). writeOutputFileResult E r io \<noteq> []"
  proof -
    from a have "length (outputFile s') \<le> length h + length R"
      unfolding s'_def h_def R_def by (rule outputFile_length)
    with 1 2 show ?thesis by simp
  qed
  from 1 2 3 4 have "outputFile s' = overwrite (length h) R (outputFile s)
      \<and> outputFile s' = h @ R @ drop (length h + length R) (outputFile s)
      \<and> (outputFile s' = h @ R \<longleftrightarrow> length (outputFile s) \<le> length h + length R)
      \<and> ((\<forall>r \<in> set (results s'). writeOutputFileResult E r io \<noteq> [])
           \<longrightarrow> outputFile s' = h @ R)"
    by simp
  then show ?thesis
    unfolding Let_def s_def s'_def h_def R_def .
qed

theorem region_overwritten_after_step_witness:
  "io_progressFile two_step_io \<noteq> io_outputFile two_step_io
   \<and> (let s = after_steps (machine64 (always Failure) marking_writer) two_step_io 2 (Suc 0);
          s' = after_steps (machine64 (always Failure) marking_writer) two_step_io 2
                 (Suc (Suc 0));
          h = writeOutputFileHeader (machine64 (always Failure) marking_writer) two_step_io;
          R = region (machine64 (always Failure) marking_writer) two_step_io
                (int (Suc (Suc 0))) 2 (anySuccesses s') (anyFailures s') (results s')
      in (\<forall>r \<in> set (results s').
            writeOutputFileResult (machine64 (always Failure) marking_writer) r two_step_io
              \<noteq> [])
         \<and> length (outputFile s) \<le> length h + length R
         \<and> outputFile s' = h @ R)"
proof -
  let ?E = "machine64 (always Failure) marking_writer"
  have p: "io_progressFile two_step_io \<noteq> io_outputFile two_step_io" by simp
  have w: "\<forall>r \<in> set (results (after_steps ?E two_step_io 2 (Suc (Suc 0)))).
      writeOutputFileResult ?E r two_step_io \<noteq> []"
    by simp
  show ?thesis
    using region_overwritten_after_step [OF p, of ?E 2 "Suc 0"] p w
    unfolding Let_def by blast
qed

text \<open>
  A sweep of two steps that both fail, with the writer that writes no line for a
  failed step: the text of the second step is one character shorter than the text
  of the first (\<open>allFailed\<close> for \<open>inProgress\<close>), and the last character of the first
  text survives at the end of the file.
\<close>

theorem stale_tail_counterexample:
  "map_option output_content
     (main (machine64 (always Failure) silent_writer) (Some two_step_io))
     = Some (Some (''# Input'' @ endl
                   @ ''# Progress'' @ endl @ ''status=allFailed'' @ endl
                   @ ''completedSteps=2'' @ endl @ ''totalSteps=2'' @ endl
                   @ ''# Output'' @ endl @ endl))
   \<and> writeOutputFileHeader (machine64 (always Failure) silent_writer) two_step_io
       @ region (machine64 (always Failure) silent_writer) two_step_io 2 2 False True
           [\<lparr> status = Failure, eff = [] \<rparr>, \<lparr> status = Failure, eff = [] \<rparr>]
     = ''# Input'' @ endl
       @ ''# Progress'' @ endl @ ''status=allFailed'' @ endl
       @ ''completedSteps=2'' @ endl @ ''totalSteps=2'' @ endl
       @ ''# Output'' @ endl"
proof -
  let ?E = "machine64 (always Failure) silent_writer"
  have h: "can_open ?E (io_outputFile two_step_io)"
    "io_progressFile two_step_io = [] \<or> can_open ?E (io_progressFile two_step_io)"
    "totalSteps ?E two_step_io = Some 2"
    by (simp_all add: totalSteps_two_step)
  have n: "nat 2 = Suc (Suc 0)" by simp
  have 1: "map_option output_content (main ?E (Some two_step_io))
     = Some (Some (''# Input'' @ endl
                   @ ''# Progress'' @ endl @ ''status=allFailed'' @ endl
                   @ ''completedSteps=2'' @ endl @ ''totalSteps=2'' @ endl
                   @ ''# Output'' @ endl @ endl))"
    by (simp only: main_run_maps(4) [OF h] n two_step_state_2)
  have 2: "writeOutputFileHeader ?E two_step_io
       @ region ?E two_step_io 2 2 False True
           [\<lparr> status = Failure, eff = [] \<rparr>, \<lparr> status = Failure, eff = [] \<rparr>]
     = ''# Input'' @ endl
       @ ''# Progress'' @ endl @ ''status=allFailed'' @ endl
       @ ''completedSteps=2'' @ endl @ ''totalSteps=2'' @ endl
       @ ''# Output'' @ endl"
    by (simp add: silent_writer_def text_eval)
  from 1 2 show ?thesis by (rule conjI)
qed

section \<open>The status of the run\<close>

lemma runStatus_precedence:
  "(runStatus c t a b = InProgress \<longleftrightarrow> c < t)
   \<and> (\<not> c < t \<longrightarrow>
        (runStatus c t a b = SomeFailed \<longleftrightarrow> a \<and> b)
        \<and> (runStatus c t a b = AllFailed \<longleftrightarrow> b \<and> \<not> a)
        \<and> (runStatus c t a b = Succeeded \<longleftrightarrow> \<not> b))"
  by (auto simp add: runStatus_def)

lemma results_prefix:
  "j \<le> k \<Longrightarrow> set (results (after_steps E io n j)) \<subseteq> set (results (after_steps E io n k))"
  by (auto simp add: results_after_steps)

lemma progress_in_outputFile:
  "take (length (writeOutputFileProgress (int k) n (anySuccesses (after_steps E io n k))
                   (anyFailures (after_steps E io n k))))
        (drop (outputFilePosition E io) (outputFile (after_steps E io n k)))
   = writeOutputFileProgress (int k) n (anySuccesses (after_steps E io n k))
       (anyFailures (after_steps E io n k))"
proof (cases k)
  case 0
  then show ?thesis by (simp add: initial_state_def outputFilePosition_def)
next
  case (Suc j)
  show ?thesis
    unfolding Suc outputFilePosition_def
    by (subst outputFile_Suc_decomposed) (simp add: region_def)
qed

lemma progress_in_progressFile:
  "io_progressFile io \<noteq> [] \<Longrightarrow>
   progressFile (after_steps E io n k)
     = Some (writeOutputFileProgress (int k) n (anySuccesses (after_steps E io n k))
               (anyFailures (after_steps E io n k)))"
  by (cases k) (simp_all add: initial_state_def body_def Let_def add.commute)

text \<open>
  C2. After \<open>k\<close> steps the flag \<open>anySuccesses\<close> holds exactly when one of the results so
  far is a success, and \<open>anyFailures\<close> exactly when one is not; a flag that holds after
  \<open>j\<close> steps holds after every later step. In a run whose output file and progress
  file have different paths, the progress block written at the recorded position
  of the output file, and to the progress file when there is one, is the one of \<open>k\<close>
  completed steps, \<open>totalSteps\<close> and these two flags. The status in it is a function
  of these four values: in progress exactly when the completed steps are fewer
  than the total; otherwise some failed exactly when both flags hold, all failed
  exactly when only the failure flag holds, and succeeded exactly when the failure
  flag does not hold.
\<close>

theorem progress_status_after_step:
  "let s = after_steps E io n k;
       P = writeOutputFileProgress (int k) n (anySuccesses s) (anyFailures s)
   in anySuccesses s = (\<exists>r \<in> set (results s). status r = Success)
      \<and> anyFailures s = (\<exists>r \<in> set (results s). status r \<noteq> Success)
      \<and> (\<forall>j \<le> k. (anySuccesses (after_steps E io n j) \<longrightarrow> anySuccesses s)
                  \<and> (anyFailures (after_steps E io n j) \<longrightarrow> anyFailures s))
      \<and> (io_progressFile io \<noteq> io_outputFile io \<longrightarrow>
           take (length P) (drop (outputFilePosition E io) (outputFile s)) = P
           \<and> (io_progressFile io \<noteq> [] \<longrightarrow> progressFile s = Some P))
      \<and> P = ''# Progress'' @ endl
             @ ''status='' @ status_name (runStatus (int k) n (anySuccesses s) (anyFailures s))
             @ endl
             @ ''completedSteps='' @ string_of_int (int k) @ endl
             @ ''totalSteps='' @ string_of_int n @ endl
      \<and> (runStatus c t a b = InProgress \<longleftrightarrow> c < t)
      \<and> (\<not> c < t \<longrightarrow>
           (runStatus c t a b = SomeFailed \<longleftrightarrow> a \<and> b)
           \<and> (runStatus c t a b = AllFailed \<longleftrightarrow> b \<and> \<not> a)
           \<and> (runStatus c t a b = Succeeded \<longleftrightarrow> \<not> b))"
proof -
  define s where "s = after_steps E io n k"
  define P where "P = writeOutputFileProgress (int k) n (anySuccesses s) (anyFailures s)"
  have 1: "anySuccesses s = (\<exists>r \<in> set (results s). status r = Success)"
    unfolding s_def by (rule anySuccesses_after_steps)
  have 2: "anyFailures s = (\<exists>r \<in> set (results s). status r \<noteq> Success)"
    unfolding s_def by (rule anyFailures_after_steps)
  have 3: "\<forall>j \<le> k. (anySuccesses (after_steps E io n j) \<longrightarrow> anySuccesses s)
                  \<and> (anyFailures (after_steps E io n j) \<longrightarrow> anyFailures s)"
  proof (intro allI impI)
    fix j assume "j \<le> k"
    from results_prefix [OF this, of E io n]
    show "(anySuccesses (after_steps E io n j) \<longrightarrow> anySuccesses s)
        \<and> (anyFailures (after_steps E io n j) \<longrightarrow> anyFailures s)"
      unfolding s_def anySuccesses_after_steps anyFailures_after_steps by blast
  qed
  have 4: "take (length P) (drop (outputFilePosition E io) (outputFile s)) = P"
    unfolding P_def s_def by (rule progress_in_outputFile)
  have 5: "io_progressFile io \<noteq> [] \<longrightarrow> progressFile s = Some P"
    unfolding P_def s_def by (simp add: progress_in_progressFile)
  have 6: "P = ''# Progress'' @ endl
             @ ''status='' @ status_name (runStatus (int k) n (anySuccesses s) (anyFailures s))
             @ endl
             @ ''completedSteps='' @ string_of_int (int k) @ endl
             @ ''totalSteps='' @ string_of_int n @ endl"
    unfolding P_def by (simp add: writeOutputFileProgress_def)
  note 7 = runStatus_precedence [of c t a b]
  from 1 2 3 4 5 6 7 have
    "anySuccesses s = (\<exists>r \<in> set (results s). status r = Success)
      \<and> anyFailures s = (\<exists>r \<in> set (results s). status r \<noteq> Success)
      \<and> (\<forall>j \<le> k. (anySuccesses (after_steps E io n j) \<longrightarrow> anySuccesses s)
                  \<and> (anyFailures (after_steps E io n j) \<longrightarrow> anyFailures s))
      \<and> (io_progressFile io \<noteq> io_outputFile io \<longrightarrow>
           take (length P) (drop (outputFilePosition E io) (outputFile s)) = P
           \<and> (io_progressFile io \<noteq> [] \<longrightarrow> progressFile s = Some P))
      \<and> P = ''# Progress'' @ endl
             @ ''status='' @ status_name (runStatus (int k) n (anySuccesses s) (anyFailures s))
             @ endl
             @ ''completedSteps='' @ string_of_int (int k) @ endl
             @ ''totalSteps='' @ string_of_int n @ endl
      \<and> (runStatus c t a b = InProgress \<longleftrightarrow> c < t)
      \<and> (\<not> c < t \<longrightarrow>
           (runStatus c t a b = SomeFailed \<longleftrightarrow> a \<and> b)
           \<and> (runStatus c t a b = AllFailed \<longleftrightarrow> b \<and> \<not> a)
           \<and> (runStatus c t a b = Succeeded \<longleftrightarrow> \<not> b))"
    by blast
  then show ?thesis
    unfolding Let_def P_def s_def .
qed

theorem progress_status_after_step_witness:
  "io_progressFile two_step_io \<noteq> io_outputFile two_step_io
   \<and> io_progressFile two_step_io \<noteq> []
   \<and> \<not> (2::int) < 2
   \<and> (let s = after_steps (machine64 (always Failure) marking_writer) two_step_io 2 2
       in \<not> anySuccesses s \<and> anyFailures s
          \<and> \<not> anyFailures (after_steps (machine64 (always Failure) marking_writer) two_step_io 2 0)
          \<and> anyFailures (after_steps (machine64 (always Failure) marking_writer) two_step_io 2 1)
          \<and> progressFile s
              = Some (''# Progress'' @ endl @ ''status=allFailed'' @ endl
                      @ ''completedSteps=2'' @ endl @ ''totalSteps=2'' @ endl)
          \<and> runStatus 2 2 False True = AllFailed)"
proof -
  let ?E = "machine64 (always Failure) marking_writer"
  have d: "io_progressFile two_step_io \<noteq> io_outputFile two_step_io" by simp
  have p: "io_progressFile two_step_io \<noteq> []" by simp
  have r: "status (step_result ?E two_step_io i) = Failure" for i
    by (simp add: step_result_def always_def Let_def)
  have f2: "\<not> anySuccesses (after_steps ?E two_step_io 2 2)"
    "anyFailures (after_steps ?E two_step_io 2 2)"
    by (simp_all only: anySuccesses_after_steps anyFailures_after_steps results_after_steps)
       (auto simp add: r intro: exI [of _ 0])
  have f1: "anyFailures (after_steps ?E two_step_io 2 1)"
    by (simp only: anyFailures_after_steps results_after_steps)
       (auto simp add: r intro: exI [of _ 0])
  have f0: "\<not> anyFailures (after_steps ?E two_step_io 2 0)"
    by (simp add: initial_state_def)
  have t: "writeOutputFileProgress 2 2 False True
      = ''# Progress'' @ endl @ ''status=allFailed'' @ endl
        @ ''completedSteps=2'' @ endl @ ''totalSteps=2'' @ endl"
    by (simp add: text_eval)
  have s: "runStatus 2 2 False True = AllFailed"
    using progress_status_after_step [of ?E two_step_io 2 2 2 2 False True]
    by (simp add: Let_def)
  have "progressFile (after_steps ?E two_step_io 2 2)
      = Some (writeOutputFileProgress 2 2 False True)"
    using progress_status_after_step [of ?E two_step_io 2 2 2 2 False True] d p f2
    unfolding Let_def by simp
  then show ?thesis
    using d p f2 f1 f0 s unfolding Let_def t by simp
qed

section \<open>The sweep coordinates\<close>

lemma rounding_not_NaN: "rounding r \<Longrightarrow> r x \<noteq> NaN"
proof
  assume r: "rounding r" and "r x = NaN"
  from r have "dle (r x) (r x)" by (simp add: rounding_def)
  with \<open>r x = NaN\<close> show False by simp
qed

lemma dle_PInf: "d \<noteq> NaN \<Longrightarrow> dle d PInf"
  by (cases d) simp_all

lemma NInf_dle: "d \<noteq> NaN \<Longrightarrow> dle NInf d"
  by (cases d) simp_all

lemma dle_finite:
  "is_finite a \<Longrightarrow> is_finite b \<Longrightarrow> dle a b \<longleftrightarrow> fin_value a \<le> fin_value b"
  by (cases a; cases b) simp_all

lemma dlt_finite:
  "is_finite a \<Longrightarrow> is_finite b \<Longrightarrow> dlt a b \<longleftrightarrow> fin_value a < fin_value b"
  by (cases a; cases b) simp_all

lemma dle_same_value:
  assumes "is_finite a" and "is_finite a'" and "fin_value a = fin_value a'" and "dle a' b"
  shows "dle a b"
  using assms by (cases a; cases a'; cases b) simp_all

text \<open>Under a rounding, the sum of two finite doubles is the rounded sum of their
  values, up to the sign of a zero.\<close>

lemma dadd_rounding:
  assumes "rounding r" and "is_finite a" and "is_finite b"
  shows "dadd r a b = r (fin_value a + fin_value b) \<or> (dadd r a b = NZero \<and> fin_value a + fin_value b = 0)"
  using assms by (cases a; cases b) (auto simp add: rounding_def)

lemma dle_rounded:
  assumes "rounding r" and "x \<le> y"
    and "a = r x \<or> (a = NZero \<and> x = 0)" and "b = r y \<or> (b = NZero \<and> y = 0)"
  shows "dle a b"
proof -
  have z: "r 0 = Fin 0" and m: "dle (r x) (r y)"
    using assms(1,2) by (simp_all add: rounding_def)
  have "dle a (r y)"
    using assms(3) m z by (cases "r y") auto
  then show ?thesis
    using assms(4) z by (cases a) auto
qed

lemma dadd_mono:
  assumes r: "rounding r" and a: "is_finite a" and le: "dle b c"
  shows "dle (dadd r a b) (dadd r a c)"
proof (cases "is_finite b")
  case b: True
  show ?thesis
  proof (cases "is_finite c")
    case c: True
    from le b c have "fin_value a + fin_value b \<le> fin_value a + fin_value c"
      by (simp add: dle_finite)
    from dle_rounded [OF r this dadd_rounding [OF r a b] dadd_rounding [OF r a c]]
    show ?thesis .
  next
    case False
    with le b have "c = PInf" by (cases b; cases c) simp_all
    moreover have "dadd r a PInf = PInf" using a by (cases a) simp_all
    moreover have "dadd r a b \<noteq> NaN"
      using dadd_rounding [OF r a b] rounding_not_NaN [OF r] by auto
    ultimately show ?thesis by (simp add: dle_PInf)
  qed
next
  case False
  with le have b: "b = NInf \<or> b = PInf" by (cases b) simp_all
  show ?thesis
  proof (cases "b = NInf")
    case True
    then have "dadd r a b = NInf" using a by (cases a) simp_all
    moreover have "dadd r a c \<noteq> NaN"
    proof (cases "is_finite c")
      case True
      from dadd_rounding [OF r a True] rounding_not_NaN [OF r] show ?thesis by auto
    next
      case False
      with le True a show ?thesis by (cases a; cases c) simp_all
    qed
    ultimately show ?thesis by (simp add: NInf_dle)
  next
    case False
    with b have "b = PInf" by simp
    with le have "c = PInf" by (cases c) simp_all
    with \<open>b = PInf\<close> a show ?thesis by (cases a) simp_all
  qed
qed

lemma dmul_index_rounding:
  assumes "rounding r" and "0 < c" and "0 \<le> i"
  shows "dmul r (Fin c) (int_to_double i) = r (c * of_int i)"
  using assms by (simp add: int_to_double_def rounding_def)

lemma currentValue_mono:
  assumes r: "rounding (rnd E)"
    and "is_finite (io_min io)" and "io_increment io = Fin c" and "0 < c"
    and "0 \<le> i" and "i \<le> j"
  shows "dle (currentValue E io i) (currentValue E io j)"
proof -
  have "c * of_int i \<le> c * of_int j" using assms by simp
  with r have "dle (rnd E (c * of_int i)) (rnd E (c * of_int j))"
    by (simp add: rounding_def)
  then have "dle (dmul (rnd E) (Fin c) (int_to_double i)) (dmul (rnd E) (Fin c) (int_to_double j))"
    using assms by (simp add: dmul_index_rounding)
  from dadd_mono [OF r assms(2) this] show ?thesis
    by (simp add: currentValue_def assms(3))
qed

lemma currentValue_0:
  assumes "representable r (io_min io)" and "rnd E = r"
    and "is_finite (io_min io)" and "io_increment io = Fin c" and "0 < c"
  shows "is_finite (currentValue E io 0)
       \<and> fin_value (currentValue E io 0) = fin_value (io_min io)"
  using assms
  by (cases "io_min io") (auto simp add: currentValue_def int_to_double_def representable_def)

text \<open>An operation on finite doubles whose exact result the rounding returns has
  that result, up to the sign of a zero.\<close>

lemma dadd_exact:
  assumes "is_finite a" and "is_finite b" and "exact_at r (fin_value a + fin_value b)"
  shows "is_finite (dadd r a b) \<and> fin_value (dadd r a b) = fin_value a + fin_value b"
  using assms by (cases a; cases b) (auto simp add: exact_at_def)

lemma dsub_exact:
  assumes "is_finite a" and "is_finite b" and "exact_at r (fin_value a - fin_value b)"
  shows "is_finite (dsub r a b) \<and> fin_value (dsub r a b) = fin_value a - fin_value b"
  using assms by (cases a; cases b) (auto simp add: exact_at_def dsub_def)

lemma dmul_exact:
  assumes "exact_at r (x * y)"
  shows "is_finite (dmul r (Fin x) (Fin y)) \<and> fin_value (dmul r (Fin x) (Fin y)) = x * y"
  using assms by (auto simp add: exact_at_def)

lemma ddiv_exact:
  assumes "is_finite a" and "c \<noteq> 0" and "exact_at r (fin_value a / c)"
  shows "is_finite (ddiv r a (Fin c)) \<and> fin_value (ddiv r a (Fin c)) = fin_value a / c"
  using assms by (cases a) (auto simp add: exact_at_def)

lemma currentValue_exact:
  assumes "is_finite (io_min io)" and "io_increment io = Fin c"
    and "exact_at (rnd E) (c * of_int i)"
    and "exact_at (rnd E) (fin_value (io_min io) + c * of_int i)"
  shows "is_finite (currentValue E io i)
       \<and> fin_value (currentValue E io i) = fin_value (io_min io) + c * of_int i"
proof -
  let ?p = "dmul (rnd E) (Fin c) (Fin (of_int i))"
  from dmul_exact [OF assms(3)] have p: "is_finite ?p" "fin_value ?p = c * of_int i"
    by simp_all
  from assms(4) have "exact_at (rnd E) (fin_value (io_min io) + fin_value ?p)"
    by (simp only: p(2))
  from dadd_exact [OF assms(1) p(1) this]
  have "is_finite (dadd (rnd E) (io_min io) ?p)
      \<and> fin_value (dadd (rnd E) (io_min io) ?p) = fin_value (io_min io) + c * of_int i"
    by (simp only: p(2))
  then show ?thesis
    by (simp only: currentValue_def int_to_double_def assms(2))
qed

lemma totalSteps_quotient:
  assumes "totalSteps E io = Some n"
  shows "is_finite (ddiv (rnd E) (dsub (rnd E) (io_max io) (io_min io)) (io_increment io))
       \<and> n = trunc (fin_value
               (ddiv (rnd E) (dsub (rnd E) (io_max io) (io_min io)) (io_increment io))) + 1"
  using assms
  by (auto simp add: totalSteps_def double_to_int_def int_add_def
      split: option.splits if_splits)

lemma ddiv_finite:
  assumes "is_finite (ddiv r a (Fin c))"
  shows "is_finite a"
  using assms by (cases a) (auto split: if_splits)

lemma dadd_finite:
  assumes "is_finite (dadd r a b)"
  shows "is_finite a \<and> is_finite b"
  using assms by (cases a; cases b) simp_all

lemma is_finite_dneg [simp]: "is_finite (dneg a) = is_finite a"
  by (cases a) simp_all

lemma totalSteps_finite:
  assumes "totalSteps E io = Some n" and "io_increment io = Fin c"
  shows "is_finite (io_min io) \<and> is_finite (io_max io)"
proof -
  from totalSteps_quotient [OF assms(1)]
  have "is_finite (ddiv (rnd E) (dsub (rnd E) (io_max io) (io_min io)) (Fin c))"
    by (simp add: assms(2))
  then have "is_finite (dsub (rnd E) (io_max io) (io_min io))" by (rule ddiv_finite)
  then show ?thesis
    unfolding dsub_def using dadd_finite [of "rnd E" "io_max io" "dneg (io_min io)"] by simp
qed

lemma tenths_io_simps [simp]:
  "io_mode tenths_io = ConstantIncidence"
  "io_min tenths_io = Fin 0"
  "io_max tenths_io = Fin (7656119366529843 / 2 ^ 52)"
  "io_increment tenths_io = Fin (3602879701896397 / 2 ^ 55)"
  "io_outputFile tenths_io = ''testOutput.txt''"
  "io_progressFile tenths_io = ''testProgress.txt''"
  by (simp_all add: tenths_io_def example_io_def)

lemma tenths_max: "round64 (7656119366529843 / 2 ^ 52) = Fin (7656119366529843 / 2 ^ 52)"
  by (simp add: round64_eval)

lemma tenths_quotient:
  "round64 (7656119366529843 / 2 ^ 52 / (3602879701896397 / 2 ^ 55)) = Fin 17"
  by (simp add: round64_eval)

lemma tenths_product:
  "round64 (3602879701896397 / 2 ^ 55 * 17) = Fin (7656119366529844 / 2 ^ 52)"
  by (simp add: round64_eval)

lemma tenths_sum:
  "round64 (7656119366529844 / 2 ^ 52) = Fin (7656119366529844 / 2 ^ 52)"
  by (simp add: round64_eval)

lemma tenths_totalSteps: "totalSteps (machine64 g w) tenths_io = Some 18"
  using tenths_max tenths_quotient
  by (simp add: totalSteps_def dsub_def double_to_int_def int_add_def trunc_def
      INT_MIN_def INT_MAX_def)

lemma tenths_last: "currentValue (machine64 g w) tenths_io 17 = Fin (7656119366529844 / 2 ^ 52)"
  using tenths_product tenths_sum
  by (simp add: currentValue_def int_to_double_def)

lemma example_io_sweep [simp]:
  "io_min example_io = Fin 100"
  "io_max example_io = Fin 120"
  "io_increment example_io = Fin 5"
  by (simp_all add: example_io_def)

lemma round64_small:
  "round64 5 = Fin 5" "round64 10 = Fin 10" "round64 15 = Fin 15"
  "round64 100 = Fin 100" "round64 105 = Fin 105" "round64 110 = Fin 110"
  "round64 115 = Fin 115" "round64 120 = Fin 120"
  by (simp_all add: round64_eval)

text \<open>
  C10 (amended). For a finite positive increment and a \<open>max\<close> not below \<open>min\<close>, at every
  executed step (\<open>0 \<le> i < totalSteps\<close>) the sweep coordinate \<open>min + increment\<cdot>i\<close> is at
  least \<open>min\<close>, on every machine whose rounding keeps zero and the order and
  represents \<open>min\<close>. It is at most \<open>max\<close> when the four operations that lead to it
  are exact on the given machine: the difference \<open>max - min\<close>, its quotient by the
  increment, the product \<open>increment\<cdot>i\<close> and the sum \<open>min + increment\<cdot>i\<close>. When one of
  them rounds, the coordinate can exceed \<open>max\<close>.
\<close>

theorem coordinate_bounds:
  assumes "io_increment io = Fin c" and "0 < c"
    and "dle (io_min io) (io_max io)"
    and "totalSteps E io = Some n" and "0 \<le> i" and "i < n"
  shows "(rounding (rnd E) \<and> representable (rnd E) (io_min io)
            \<longrightarrow> dle (io_min io) (currentValue E io i))
       \<and> (exact_at (rnd E) (fin_value (io_max io) - fin_value (io_min io))
          \<and> exact_at (rnd E) ((fin_value (io_max io) - fin_value (io_min io)) / c)
          \<and> exact_at (rnd E) (c * of_int i)
          \<and> exact_at (rnd E) (fin_value (io_min io) + c * of_int i)
            \<longrightarrow> dle (currentValue E io i) (io_max io))"
proof -
  from totalSteps_finite [OF assms(4,1)] have
    fin: "is_finite (io_min io)" "is_finite (io_max io)" by simp_all
  define m where "m = fin_value (io_min io)"
  define M where "M = fin_value (io_max io)"
  have le: "m \<le> M" using assms(3) fin by (simp add: dle_finite m_def M_def)
  show ?thesis
  proof (intro conjI impI)
    assume a: "rounding (rnd E) \<and> representable (rnd E) (io_min io)"
    from a have "representable (rnd E) (io_min io)" by simp
    from currentValue_0 [OF this refl fin(1) assms(1,2)]
    have 0: "is_finite (currentValue E io 0)"
      "fin_value (io_min io) = fin_value (currentValue E io 0)" by simp_all
    have "dle (currentValue E io 0) (currentValue E io i)"
      using a fin(1) assms(1,2,5) by (intro currentValue_mono) auto
    from dle_same_value [OF fin(1) 0 this]
    show "dle (io_min io) (currentValue E io i)" .
  next
    assume ex: "exact_at (rnd E) (fin_value (io_max io) - fin_value (io_min io))
          \<and> exact_at (rnd E) ((fin_value (io_max io) - fin_value (io_min io)) / c)
          \<and> exact_at (rnd E) (c * of_int i)
          \<and> exact_at (rnd E) (fin_value (io_min io) + c * of_int i)"
    let ?D = "dsub (rnd E) (io_max io) (io_min io)"
    let ?Q = "ddiv (rnd E) ?D (Fin c)"
    from ex have "exact_at (rnd E) (fin_value (io_max io) - fin_value (io_min io))" by simp
    from dsub_exact [OF fin(2,1) this]
    have D: "is_finite ?D" "fin_value ?D = M - m" by (simp_all add: m_def M_def)
    from ex have "exact_at (rnd E) (fin_value ?D / c)"
      by (simp add: D(2) m_def M_def)
    from ddiv_exact [OF D(1) _ this] assms(2)
    have Q: "fin_value ?Q = (M - m) / c" by (simp add: D(2))
    from totalSteps_quotient [OF assms(4)] have n: "n = trunc ((M - m) / c) + 1"
      by (simp add: assms(1) Q)
    have q0: "0 \<le> (M - m) / c" using assms(2) le by simp
    then have "n = \<lfloor>(M - m) / c\<rfloor> + 1" using n by (simp add: trunc_def)
    with assms(6) have "i \<le> \<lfloor>(M - m) / c\<rfloor>" by simp
    then have "of_int i \<le> (M - m) / c" by (simp add: le_floor_iff)
    then have v: "m + c * of_int i \<le> M"
      using assms(2) by (simp add: field_simps)
    from ex have "exact_at (rnd E) (c * of_int i)"
      "exact_at (rnd E) (fin_value (io_min io) + c * of_int i)" by simp_all
    from currentValue_exact [OF fin(1) assms(1) this]
    have "is_finite (currentValue E io i)"
      "fin_value (currentValue E io i) = m + c * of_int i" by (simp_all add: m_def)
    with v fin(2) show "dle (currentValue E io i) (io_max io)"
      by (simp add: dle_finite M_def)
  qed
qed

theorem coordinate_bounds_witness:
  "io_increment example_io = Fin 5 \<and> (0::real) < 5
   \<and> dle (io_min example_io) (io_max example_io)
   \<and> totalSteps (machine64 (always Success) marking_writer) example_io = Some 5
   \<and> (0::int) \<le> 4 \<and> (4::int) < 5
   \<and> rounding (rnd (machine64 (always Success) marking_writer))
   \<and> representable (rnd (machine64 (always Success) marking_writer)) (io_min example_io)
   \<and> exact_at (rnd (machine64 (always Success) marking_writer))
        (fin_value (io_max example_io) - fin_value (io_min example_io))
   \<and> exact_at (rnd (machine64 (always Success) marking_writer))
        ((fin_value (io_max example_io) - fin_value (io_min example_io)) / 5)
   \<and> exact_at (rnd (machine64 (always Success) marking_writer)) (5 * of_int 4)
   \<and> exact_at (rnd (machine64 (always Success) marking_writer))
        (fin_value (io_min example_io) + 5 * of_int 4)
   \<and> dle (io_min example_io) (currentValue (machine64 (always Success) marking_writer) example_io 4)
   \<and> dle (currentValue (machine64 (always Success) marking_writer) example_io 4)
        (io_max example_io)"
proof -
  let ?E = "machine64 (always Success) marking_writer"
  have c: "io_increment example_io = Fin 5" "(0::real) < 5"
    "dle (io_min example_io) (io_max example_io)"
    by simp_all
  have t: "totalSteps ?E example_io = Some 5" by (rule totalSteps_example)
  have i: "(0::int) \<le> 4" "(4::int) < 5" by simp_all
  have r: "rounding (rnd ?E)" by (simp add: rounding_round64)
  have m: "representable (rnd ?E) (io_min example_io)"
    by (simp add: representable_def round64_small)
  have x: "exact_at (rnd ?E) (fin_value (io_max example_io) - fin_value (io_min example_io))"
    "exact_at (rnd ?E) ((fin_value (io_max example_io) - fin_value (io_min example_io)) / 5)"
    "exact_at (rnd ?E) (5 * of_int 4)"
    "exact_at (rnd ?E) (fin_value (io_min example_io) + 5 * of_int 4)"
    by (simp_all add: exact_at_def round64_small round64_20 round64_4)
  show ?thesis
    using c t i r m x coordinate_bounds [OF c t i]
    by blast
qed

text \<open>
  In binary64 the sweep from 0 to 1.7 in steps of 0.1 has 18 steps, because the
  quotient \<open>1.7/0.1\<close> rounds up to 17, and the coordinate of its last step is
  \<open>0.1\<cdot>17\<close> rounded, the binary64 number above 1.7.
\<close>

theorem coordinate_above_max_counterexample:
  "dlt (Fin 0) (io_increment tenths_io)
   \<and> dle (io_min tenths_io) (io_max tenths_io)
   \<and> totalSteps (machine64 (always Success) marking_writer) tenths_io = Some 18
   \<and> map_option (\<lambda>out. fst (run_calls out ! 17))
        (main (machine64 (always Success) marking_writer) (Some tenths_io))
       = Some (Fin (7656119366529844 / 2 ^ 52))
   \<and> \<not> dle (Fin (7656119366529844 / 2 ^ 52)) (io_max tenths_io)"
proof -
  let ?E = "machine64 (always Success) marking_writer"
  have h: "can_open ?E (io_outputFile tenths_io)"
    "io_progressFile tenths_io = [] \<or> can_open ?E (io_progressFile tenths_io)"
    "totalSteps ?E tenths_io = Some 18"
    by (simp_all add: tenths_totalSteps)
  have k: "17 < nat 18" by simp
  have "map_option (\<lambda>out. fst (run_calls out ! 17)) (main ?E (Some tenths_io))
      = map_option fst (map_option (\<lambda>out. run_calls out ! 17) (main ?E (Some tenths_io)))"
    by (simp add: option.map_comp comp_def)
  also have "\<dots> = Some (currentValue ?E tenths_io 17)"
    by (simp only: main_run_nth(1) [OF h k]) simp
  finally show ?thesis
    using h(3) by (simp add: tenths_last)
qed

section \<open>The results of the sweep\<close>

lemma currentValue_strict:
  assumes "is_finite (io_min io)" and "io_increment io = Fin c" and "0 < c" and "i < j"
    and "exact_at (rnd E) (c * of_int i)"
    and "exact_at (rnd E) (fin_value (io_min io) + c * of_int i)"
    and "exact_at (rnd E) (c * of_int j)"
    and "exact_at (rnd E) (fin_value (io_min io) + c * of_int j)"
  shows "dlt (currentValue E io i) (currentValue E io j)"
  using currentValue_exact [OF assms(1,2,5,6)] currentValue_exact [OF assms(1,2,7,8)]
    assms(3,4)
  by (simp add: dlt_finite)

lemma descending_io_simps [simp]:
  "io_min descending_io = Fin 10"
  "io_max descending_io = Fin 0"
  "io_increment descending_io = Fin (- 5)"
  "io_outputFile descending_io = ''testOutput.txt''"
  "io_progressFile descending_io = ''testProgress.txt''"
  by (simp_all add: descending_io_def example_io_def)

lemma reversed_io_simps [simp]:
  "io_min reversed_io = Fin 10"
  "io_max reversed_io = Fin 5"
  "io_increment reversed_io = Fin 2"
  "io_outputFile reversed_io = ''testOutput.txt''"
  "io_progressFile reversed_io = ''testProgress.txt''"
  by (simp_all add: reversed_io_def example_io_def)

lemma absorbed_io_simps [simp]:
  "io_min absorbed_io = Fin 9007199254740992"
  "io_max absorbed_io = Fin 9007199254740994"
  "io_increment absorbed_io = Fin 1"
  "io_outputFile absorbed_io = ''testOutput.txt''"
  "io_progressFile absorbed_io = ''testProgress.txt''"
  by (simp_all add: absorbed_io_def example_io_def)

lemmas steps_eval =
  totalSteps_def dsub_def double_to_int_def int_add_def trunc_def INT_MIN_def INT_MAX_def

lemma descending_totalSteps: "totalSteps (machine64 g w) descending_io = Some 3"
  by (simp add: steps_eval round64_eval)

lemma descending_coordinates:
  "currentValue (machine64 g w) descending_io 0 = Fin 10"
  "currentValue (machine64 g w) descending_io 1 = Fin 5"
  "currentValue (machine64 g w) descending_io 2 = Fin 0"
  by (simp_all add: currentValue_def int_to_double_def round64_eval)

lemma reversed_totalSteps: "totalSteps (machine64 g w) reversed_io = Some (- 1)"
  by (simp add: steps_eval round64_eval)

lemma absorbed_totalSteps: "totalSteps (machine64 g w) absorbed_io = Some 3"
  by (simp add: steps_eval round64_eval)

lemma absorbed_coordinates:
  "currentValue (machine64 g w) absorbed_io 0 = Fin 9007199254740992"
  "currentValue (machine64 g w) absorbed_io 1 = Fin 9007199254740992"
  "currentValue (machine64 g w) absorbed_io 2 = Fin 9007199254740994"
  by (simp_all add: currentValue_def int_to_double_def round64_eval)

lemma upt_3: "[0..<nat 3] = [0, 1, 2]"
  by (simp add: eval_nat_numeral)

lemma below_5:
  assumes "k < nat 5"
  shows "k = 0 \<or> k = 1 \<or> k = 2 \<or> k = 3 \<or> k = 4"
  using assms by arith

text \<open>
  C1 (amended). Whenever \<open>totalSteps\<close> is defined, it is the quotient
  \<open>(max - min)/increment\<close> of the double arithmetic, a finite double, truncated
  towards zero, plus 1 (which is its floor plus 1 when the quotient is not
  negative), and the run ends with as many results as \<open>totalSteps\<close> says, none when
  \<open>totalSteps\<close> is not positive: one per index \<open>0..totalSteps-1\<close>, in the order of the
  indices, the step of index \<open>k\<close> at the coordinate \<open>min + increment\<cdot>k\<close> of the double
  arithmetic. For a finite positive increment the coordinates never descend, on
  every machine whose rounding keeps zero and the order; they ascend strictly when
  at every step the product \<open>increment\<cdot>k\<close> and the sum \<open>min + increment\<cdot>k\<close> are exact
  on the given machine.
\<close>

theorem sweep_results:
  assumes "can_open E (io_outputFile io)"
    and "io_progressFile io = [] \<or> can_open E (io_progressFile io)"
    and "totalSteps E io = Some n"
  shows "\<exists>out Q. main E (Some io) = Some out
      \<and> ddiv (rnd E) (dsub (rnd E) (io_max io) (io_min io)) (io_increment io) = Q
      \<and> is_finite Q
      \<and> n = trunc (fin_value Q) + 1 \<and> (0 \<le> fin_value Q \<longrightarrow> n = \<lfloor>fin_value Q\<rfloor> + 1)
      \<and> length (run_results out) = nat n \<and> length (run_calls out) = nat n
      \<and> (\<forall>k < nat n.
            fst (run_calls out ! k)
              = dadd (rnd E) (io_min io) (dmul (rnd E) (io_increment io) (int_to_double (int k)))
            \<and> fst (run_calls out ! k) = currentValue E io (int k)
            \<and> run_results out ! k = step_result E io (int k))
      \<and> ((\<exists>c. io_increment io = Fin c \<and> 0 < c) \<longrightarrow>
            (rounding (rnd E) \<longrightarrow> sorted_wrt dle (map fst (run_calls out)))
          \<and> ((\<forall>k < nat n.
                 exact_at (rnd E) (fin_value (io_increment io) * of_int (int k))
                 \<and> exact_at (rnd E)
                     (fin_value (io_min io) + fin_value (io_increment io) * of_int (int k)))
               \<longrightarrow> sorted_wrt dlt (map fst (run_calls out))))"
proof -
  define out where "out =
     \<lparr> exit_code = 0,
       output_content = Some (outputFile (after_steps E io n (nat n))),
       progress_content = progressFile (after_steps E io n (nat n)),
       run_results = results (after_steps E io n (nat n)),
       run_calls = solverCalls (after_steps E io n (nat n)) \<rparr>"
  define Q where "Q = ddiv (rnd E) (dsub (rnd E) (io_max io) (io_min io)) (io_increment io)"
  have m: "main E (Some io) = Some out"
    unfolding out_def using assms by (rule main_run)
  from totalSteps_quotient [OF assms(3)] have
    q: "is_finite Q" and n: "n = trunc (fin_value Q) + 1"
    by (simp_all add: Q_def)
  have fl: "0 \<le> fin_value Q \<longrightarrow> n = \<lfloor>fin_value Q\<rfloor> + 1" using n by (simp add: trunc_def)
  have res: "run_results out = map (\<lambda>i. step_result E io (int i)) [0..<nat n]"
    by (simp add: out_def results_after_steps)
  have calls: "run_calls out = map (\<lambda>i. step_input E io (int i)) [0..<nat n]"
    by (simp add: out_def solverCalls_after_steps)
  have coords: "map fst (run_calls out) = map (\<lambda>i. currentValue E io (int i)) [0..<nat n]"
    by (simp add: calls comp_def)
  have len: "length (run_results out) = nat n" "length (run_calls out) = nat n"
    by (simp_all add: res calls)
  have nth: "\<forall>k < nat n.
            fst (run_calls out ! k)
              = dadd (rnd E) (io_min io) (dmul (rnd E) (io_increment io) (int_to_double (int k)))
            \<and> fst (run_calls out ! k) = currentValue E io (int k)
            \<and> run_results out ! k = step_result E io (int k)"
    by (simp add: res calls currentValue_def)
  have ord: "(rounding (rnd E) \<longrightarrow> sorted_wrt dle (map fst (run_calls out)))
          \<and> ((\<forall>k < nat n.
                 exact_at (rnd E) (fin_value (io_increment io) * of_int (int k))
                 \<and> exact_at (rnd E)
                     (fin_value (io_min io) + fin_value (io_increment io) * of_int (int k)))
               \<longrightarrow> sorted_wrt dlt (map fst (run_calls out)))"
    if "\<exists>c. io_increment io = Fin c \<and> 0 < c"
  proof -
    from that obtain c where c: "io_increment io = Fin c" "0 < c" by blast
    from totalSteps_finite [OF assms(3) c(1)] have f: "is_finite (io_min io)" by simp
    have 1: "sorted_wrt dle (map fst (run_calls out))" if r: "rounding (rnd E)"
      unfolding coords sorted_wrt_iff_nth_less
      using currentValue_mono [OF r f c] by simp
    have 2: "sorted_wrt dlt (map fst (run_calls out))"
      if x: "\<forall>k < nat n.
                 exact_at (rnd E) (fin_value (io_increment io) * of_int (int k))
                 \<and> exact_at (rnd E)
                     (fin_value (io_min io) + fin_value (io_increment io) * of_int (int k))"
    proof -
      have e: "exact_at (rnd E) (c * of_int (int k))"
        "exact_at (rnd E) (fin_value (io_min io) + c * of_int (int k))" if "k < nat n" for k
        using x that by (simp_all add: c(1))
      have "dlt (currentValue E io (int i)) (currentValue E io (int j))"
        if "i < j" "j < nat n" for i j
      proof -
        from that have "i < nat n" by simp
        from that(1) have "int i < int j" by simp
        from currentValue_strict [OF f c this e [OF \<open>i < nat n\<close>] e [OF that(2)]]
        show ?thesis .
      qed
      then show ?thesis
        unfolding coords sorted_wrt_iff_nth_less by simp
    qed
    from 1 2 show ?thesis by blast
  qed
  from m q n fl len nth ord show ?thesis unfolding Q_def by blast
qed

theorem sweep_results_witness:
  "can_open (machine64 (always Success) marking_writer) (io_outputFile example_io)
   \<and> (io_progressFile example_io = []
        \<or> can_open (machine64 (always Success) marking_writer) (io_progressFile example_io))
   \<and> totalSteps (machine64 (always Success) marking_writer) example_io = Some 5
   \<and> (\<exists>c. io_increment example_io = Fin c \<and> 0 < c)
   \<and> rounding (rnd (machine64 (always Success) marking_writer))
   \<and> exact_at (rnd (machine64 (always Success) marking_writer)) 0
   \<and> exact_at (rnd (machine64 (always Success) marking_writer)) 5
   \<and> exact_at (rnd (machine64 (always Success) marking_writer)) 10
   \<and> exact_at (rnd (machine64 (always Success) marking_writer)) 15
   \<and> exact_at (rnd (machine64 (always Success) marking_writer)) 20
   \<and> exact_at (rnd (machine64 (always Success) marking_writer)) 100
   \<and> exact_at (rnd (machine64 (always Success) marking_writer)) 105
   \<and> exact_at (rnd (machine64 (always Success) marking_writer)) 110
   \<and> exact_at (rnd (machine64 (always Success) marking_writer)) 115
   \<and> exact_at (rnd (machine64 (always Success) marking_writer)) 120
   \<and> (\<exists>out. main (machine64 (always Success) marking_writer) (Some example_io) = Some out
            \<and> length (run_results out) = 5
            \<and> fst (run_calls out ! 4) = Fin 120
            \<and> sorted_wrt dle (map fst (run_calls out))
            \<and> sorted_wrt dlt (map fst (run_calls out)))"
proof -
  let ?E = "machine64 (always Success) marking_writer"
  have f: "can_open ?E (io_outputFile example_io)"
    "io_progressFile example_io = [] \<or> can_open ?E (io_progressFile example_io)"
    by simp_all
  have t: "totalSteps ?E example_io = Some 5" by (rule totalSteps_example)
  have mc: "\<exists>c. io_increment example_io = Fin c \<and> 0 < c" by simp
  have r: "rounding (rnd ?E)" by (simp add: rounding_round64)
  have x: "\<forall>k < nat 5.
         exact_at (rnd ?E) (fin_value (io_increment example_io) * of_int (int k))
         \<and> exact_at (rnd ?E)
             (fin_value (io_min example_io)
              + fin_value (io_increment example_io) * of_int (int k))"
  proof (intro allI impI)
    fix k :: nat assume "k < nat 5"
    from below_5 [OF this]
    show "exact_at (rnd ?E) (fin_value (io_increment example_io) * of_int (int k))
         \<and> exact_at (rnd ?E)
             (fin_value (io_min example_io)
              + fin_value (io_increment example_io) * of_int (int k))"
      by (auto simp add: exact_at_def round64_small round64_0 round64_20)
  qed
  from sweep_results [OF f t] mc r x
  have 1: "\<exists>out. main ?E (Some example_io) = Some out
            \<and> length (run_results out) = 5
            \<and> fst (run_calls out ! 4) = Fin 120
            \<and> sorted_wrt dle (map fst (run_calls out))
            \<and> sorted_wrt dlt (map fst (run_calls out))"
    by (auto simp add: int_to_double_def round64_20 round64_small)
  have e: "exact_at (rnd ?E) 0"
    "exact_at (rnd ?E) 5"
    "exact_at (rnd ?E) 10"
    "exact_at (rnd ?E) 15"
    "exact_at (rnd ?E) 20"
    "exact_at (rnd ?E) 100"
    "exact_at (rnd ?E) 105"
    "exact_at (rnd ?E) 110"
    "exact_at (rnd ?E) 115"
    "exact_at (rnd ?E) 120"
    by (simp_all add: exact_at_def round64_small round64_0 round64_20)
  from f t mc r e 1 show ?thesis by blast
qed

text \<open>
  Three runs in binary64. From 10 down to 0 in steps of \<open>-5\<close> the coordinates are 10,
  5, 0: they descend. From 10 to 5 in steps of 2 the quotient is \<open>-2.5\<close>:
  \<open>totalSteps\<close> is \<open>-1\<close>, not the \<open>floor(-2.5) + 1 = -2\<close> of the formula, and the run has
  no result. From \<open>2^53\<close> to \<open>2^53 + 2\<close> in steps of 1 the coordinates are \<open>2^53\<close>,
  \<open>2^53\<close>, \<open>2^53 + 2\<close>: the second step repeats the coordinate of the first.
\<close>

theorem sweep_results_counterexample:
  "map_option (\<lambda>out. map fst (run_calls out))
      (main (machine64 (always Success) marking_writer) (Some descending_io))
     = Some [Fin 10, Fin 5, Fin 0]
   \<and> \<not> dlt (Fin 10) (Fin 5)
   \<and> totalSteps (machine64 (always Success) marking_writer) reversed_io = Some (- 1)
   \<and> \<lfloor>(5 - 10) / 2 :: real\<rfloor> + 1 = - 2
   \<and> map_option run_results (main (machine64 (always Success) marking_writer) (Some reversed_io))
       = Some []
   \<and> map_option (\<lambda>out. map fst (run_calls out))
        (main (machine64 (always Success) marking_writer) (Some absorbed_io))
       = Some [Fin 9007199254740992, Fin 9007199254740992, Fin 9007199254740994]
   \<and> \<not> dlt (Fin 9007199254740992) (Fin 9007199254740992)"
proof -
  let ?E = "machine64 (always Success) marking_writer"
  have d: "can_open ?E (io_outputFile descending_io)"
    "io_progressFile descending_io = [] \<or> can_open ?E (io_progressFile descending_io)"
    "totalSteps ?E descending_io = Some 3"
    by (simp_all add: descending_totalSteps)
  have r: "can_open ?E (io_outputFile reversed_io)"
    "io_progressFile reversed_io = [] \<or> can_open ?E (io_progressFile reversed_io)"
    "totalSteps ?E reversed_io = Some (- 1)"
    by (simp_all add: reversed_totalSteps)
  have a: "can_open ?E (io_outputFile absorbed_io)"
    "io_progressFile absorbed_io = [] \<or> can_open ?E (io_progressFile absorbed_io)"
    "totalSteps ?E absorbed_io = Some 3"
    by (simp_all add: absorbed_totalSteps)
  have 1: "map_option (\<lambda>out. map fst (run_calls out)) (main ?E (Some descending_io))
     = Some [Fin 10, Fin 5, Fin 0]"
    by (simp only: main_run_coordinates [OF d] upt_3) (simp add: descending_coordinates)
  have 2: "map_option run_results (main ?E (Some reversed_io)) = Some []"
    by (simp only: main_run_maps(1) [OF r]) simp
  have 3: "map_option (\<lambda>out. map fst (run_calls out)) (main ?E (Some absorbed_io))
     = Some [Fin 9007199254740992, Fin 9007199254740992, Fin 9007199254740994]"
    by (simp only: main_run_coordinates [OF a] upt_3) (simp add: absorbed_coordinates)
  have 4: "\<lfloor>(5 - 10) / 2 :: real\<rfloor> + 1 = - 2" by simp
  from 1 2 3 4 r(3) show ?thesis by simp
qed

section \<open>The incidence angle at a constant included angle\<close>

lemma included_angle_io_simps [simp]:
  "io_mode included_angle_io = ConstantIncludedAngle"
  "io_min included_angle_io = Fin 100"
  "io_max included_angle_io = Fin 120"
  "io_increment included_angle_io = Fin 5"
  "io_includedAngle included_angle_io = Fin 60"
  "io_toOrder included_angle_io = 1"
  "io_eV included_angle_io = True"
  "io_period included_angle_io = Fin 2"
  by (simp_all add: included_angle_io_def example_io_def)

text \<open>The binary64 values of the example: the wavelength of 100 eV, half the
  included angle of 60 degrees in radians, and a quarter of the wavelength.\<close>

lemma example_wavelength:
  "ddiv round64 (Fin (5583750708190395 / 2 ^ 52)) (Fin 100) = Fin (3573600453241853 / 2 ^ 58)"
  by (simp add: round64_eval)

lemma included_angle_product:
  "dmul round64 (Fin 60) (Fin (884279719003555 / 2 ^ 48)) = Fin (3316048946263331 / 2 ^ 44)"
  by (simp add: round64_eval)

lemma included_angle_radians:
  "ddiv round64 (Fin (3316048946263331 / 2 ^ 44)) (Fin 180) = Fin (4716158501352293 / 2 ^ 52)"
  by (simp add: round64_eval)

lemma included_angle_halved:
  "ddiv round64 (Fin (4716158501352293 / 2 ^ 52)) (Fin 2) = Fin (4716158501352293 / 2 ^ 53)"
  by (simp add: round64_eval)

lemma included_angle_half:
  "ddiv round64 (ddiv round64 (dmul round64 (Fin 60) (Fin (884279719003555 / 2 ^ 48))) (Fin 180)) (Fin 2)
     = Fin (4716158501352293 / 2 ^ 53)"
  by (simp only: included_angle_product included_angle_radians included_angle_halved)

lemma example_order:
  "dmul round64 (Fin (- 1)) (Fin (3573600453241853 / 2 ^ 58)) = Fin (- (3573600453241853 / 2 ^ 58))"
  by (simp add: round64_eval)

lemma example_halved:
  "ddiv round64 (Fin (- (3573600453241853 / 2 ^ 58))) (Fin 2) = Fin (- (3573600453241853 / 2 ^ 59))"
  by (simp add: round64_eval)

lemma example_quartered:
  "ddiv round64 (Fin (- (3573600453241853 / 2 ^ 59))) (Fin 2) = Fin (- (3573600453241853 / 2 ^ 60))"
  by (simp add: round64_eval)

lemma example_quarter:
  "ddiv round64 (ddiv round64 (Fin (- (3573600453241853 / 2 ^ 58))) (Fin 2)) (Fin 2)
     = Fin (- (3573600453241853 / 2 ^ 60))"
  by (simp only: example_halved example_quartered)

lemma example_exact:
  "exact_at round64 (- (3573600453241853 / 2 ^ 58) / 2)"
  "exact_at round64 (- (3573600453241853 / 2 ^ 58) / 2 / 2)"
  by (simp_all add: exact_at_def round64_eval)

lemma round64_half: "round64 (1 / 2) = Fin (1 / 2)"
  by (simp add: round64_eval)

lemma round64_minus_1: "round64 (- 1) = Fin (- 1)"
  by (simp add: round64_eval)

lemma included_angle_cos:
  "\<exists>k. round64 (cos (4716158501352293 / 2 ^ 53)) = Fin k \<and> 1 / 2 \<le> k \<and> k \<le> 1"
proof -
  let ?h = "4716158501352293 / 2 ^ 53 :: real"
  have "?h \<le> 2 / 3" by simp
  also have "2 / 3 \<le> pi / 3" using pi_ge_two by simp
  finally have "?h \<le> pi / 3" .
  moreover have "(0::real) \<le> ?h" by simp
  moreover have "pi / 3 \<le> pi" using pi_ge_two by simp
  ultimately have "cos (pi / 3) \<le> cos ?h" by (intro cos_monotone_0_pi_le)
  then have lo: "1 / 2 \<le> cos ?h" by (simp add: cos_60)
  have hi: "cos ?h \<le> 1" by (rule cos_le_one)
  from round64_mono [OF lo] have 1: "dle (Fin (1 / 2)) (round64 (cos ?h))"
    by (simp only: round64_half)
  from round64_mono [OF hi] have 2: "dle (round64 (cos ?h)) (Fin 1)"
    by (simp only: round64_1)
  from 1 2 show ?thesis by (cases "round64 (cos ?h)") simp_all
qed

lemma included_angle_argument:
  assumes "1 / 2 \<le> k" and "k \<le> 1"
  shows "dle (Fin (- 1)) (round64 (- (3573600453241853 / 2 ^ 60) / k))
       \<and> dle (round64 (- (3573600453241853 / 2 ^ 60) / k)) (Fin 1)"
proof -
  define q :: real where "q = 3573600453241853 / 2 ^ 60"
  define t where "t = q / k"
  have k: "0 < k" using assms(1) by simp
  have q: "0 \<le> q" "q \<le> 1 / 2" by (simp_all add: q_def)
  have t0: "0 \<le> t" unfolding t_def using q(1) k by (rule divide_nonneg_pos)
  have "q \<le> k" using q(2) assms(1) by linarith
  then have "q / k \<le> k / k" using k by (intro divide_right_mono) simp_all
  also have "k / k = 1" using k by simp
  finally have t1: "t \<le> 1" by (simp only: t_def)
  have e: "- (3573600453241853 / 2 ^ 60) / k = - t"
    unfolding t_def q_def by (rule minus_divide_left [symmetric])
  have lo: "- 1 \<le> - t" using t1 by linarith
  have hi: "- t \<le> 1" using t0 by linarith
  from round64_mono [OF lo] round64_mono [OF hi] show ?thesis
    by (simp only: e round64_minus_1 round64_1 simp_thms)
qed

lemma ddiv_exact_nonzero:
  "x \<noteq> 0 \<Longrightarrow> y \<noteq> 0 \<Longrightarrow> exact_at r (x / y) \<Longrightarrow> ddiv r (Fin x) (Fin y) = Fin (x / y)"
  by (simp add: exact_at_def)

lemma ddiv_Fin_nonzero:
  "x \<noteq> 0 \<Longrightarrow> y \<noteq> 0 \<Longrightarrow> ddiv r (Fin x) (Fin y) = r (x / y)"
  by simp

lemma regroup:
  assumes "n \<noteq> 0" and "d \<noteq> 0" and "k \<noteq> 0"
    and "exact_at r (n / 2)" and "exact_at r (n / 2 / d)"
  shows "ddiv r (ddiv r (ddiv r (Fin n) (Fin 2)) (Fin d)) (Fin k) = r (n / (2 * d * k))"
proof -
  have 2: "(2::real) \<noteq> 0" by simp
  have n2: "n / 2 \<noteq> 0" using assms(1) by simp
  have n2d: "n / 2 / d \<noteq> 0" using assms(1,2) by simp
  have a: "ddiv r (Fin n) (Fin 2) = Fin (n / 2)"
    using assms(1) 2 assms(4) by (rule ddiv_exact_nonzero)
  have b: "ddiv r (Fin (n / 2)) (Fin d) = Fin (n / 2 / d)"
    using n2 assms(2,5) by (rule ddiv_exact_nonzero)
  have c: "ddiv r (Fin (n / 2 / d)) (Fin k) = r (n / 2 / d / k)"
    using n2d assms(3) by (rule ddiv_Fin_nonzero)
  have e: "n / 2 / d / k = n / (2 * d * k)" by simp
  show ?thesis by (simp only: a b c e)
qed

lemma c_asin_in_range:
  assumes "dle (Fin (- 1)) A" and "dle A (Fin 1)"
  shows "c_asin E A = (if A = NZero then NZero else Fin (asin_fn E (fin_value A)))"
  using assms by (cases A) (simp_all add: c_asin_def)



end
